theory Spec2Isabelle
  imports Main "HOL-Library.AList" "HOL-Library.Sublist"
begin

section \<open>gogit: a shallow embedding of cmd/gogit.go\<close>

text \<open>
  The program keeps a repository under \<^verbatim>\<open>./.gat\<close>: compressed objects addressed by the
  hex SHA-1 of their content, branch files under \<^verbatim>\<open>refs/heads\<close> and a \<^verbatim>\<open>HEAD\<close> file.
  Every Go function of the source becomes a HOL function over an explicit world (the
  file system below the working directory, the position in the random stream, the clock
  and the text printed so far). A Go \<^verbatim>\<open>(value, error)\<close> return, a run-time panic and a
  \<^verbatim>\<open>log.Fatal\<close> exit are the four constructors of \<open>result\<close>.
\<close>

subsection \<open>Paths\<close>

text \<open>\<^verbatim>\<open>strings.Split(s, sep)\<close> for a one-character separator: n separators give n + 1 parts.\<close>

fun splitOn :: "char \<Rightarrow> string \<Rightarrow> string list" where
  "splitOn c [] = [[]]"
| "splitOn c (x # xs) =
     (if x = c then [] # splitOn c xs
      else (case splitOn c xs of [] \<Rightarrow> [[x]] | y # ys \<Rightarrow> (x # y) # ys))"

text \<open>\<^verbatim>\<open>strings.Join(parts, sep)\<close>.\<close>

fun intercalate :: "string \<Rightarrow> string list \<Rightarrow> string" where
  "intercalate sep [] = []"
| "intercalate sep [x] = x"
| "intercalate sep (x # y # ys) = x @ sep @ intercalate sep (y # ys)"

text \<open>
  The lexical pass shared by \<^verbatim>\<open>filepath.Clean\<close> and by the resolution of a relative path:
  the stack holds the components kept so far, innermost first. Empty components and
  \<^verbatim>\<open>.\<close> are dropped, \<^verbatim>\<open>..\<close> removes the component before it and is kept when there is
  none.
\<close>

fun walk :: "string list \<Rightarrow> string list \<Rightarrow> string list" where
  "walk st [] = st"
| "walk st (c # cs) =
     (if c = [] \<or> c = ''.'' then walk st cs
      else if c = ''..'' then
        (case st of
           [] \<Rightarrow> walk [''..''] cs
         | t # ts \<Rightarrow> if t = ''..'' then walk (''..'' # st) cs else walk ts cs)
      else walk (c # st) cs)"

definition rooted :: "string \<Rightarrow> bool" where
  "rooted s = (case s of [] \<Rightarrow> False | x # _ \<Rightarrow> x = CHR ''/'')"

text \<open>\<^verbatim>\<open>filepath.Clean\<close> on a Unix path.\<close>

definition Clean :: "string \<Rightarrow> string" where
  "Clean s =
     (let st = rev (walk [] (splitOn (CHR ''/'') s)) in
      if rooted s then ''/'' @ intercalate ''/'' (filter (\<lambda>c. c \<noteq> ''..'') st)
      else if st = [] then ''.''
      else intercalate ''/'' st)"

text \<open>\<^verbatim>\<open>filepath.Join\<close>: empty elements are ignored, the rest joined and cleaned.\<close>

definition Join :: "string list \<Rightarrow> string" where
  "Join elems =
     (let es = filter (\<lambda>e. e \<noteq> []) elems in
      if es = [] then [] else Clean (intercalate ''/'' es))"

definition BASEDIR :: string where
  "BASEDIR = ''./.gat''"

definition IGNORE_FOLDERS :: "string list" where
  "IGNORE_FOLDERS = [''.git'', ''.gat'']"

text \<open>
  \<^verbatim>\<open>getObjectPath\<close> and \<^verbatim>\<open>getObjectFolderPath\<close>. The slice expressions \<^verbatim>\<open>hash[:2]\<close> and
  \<^verbatim>\<open>hash[2:]\<close> panic when the string has fewer than two bytes: \<open>None\<close> is that panic.
\<close>

definition getObjectPath :: "string \<Rightarrow> string option" where
  "getObjectPath hash =
     (if length hash < 2 then None
      else Some (Join [BASEDIR, ''objects'', take 2 hash, drop 2 hash]))"

definition getObjectFolderPath :: "string \<Rightarrow> string option" where
  "getObjectFolderPath hash =
     (if length hash < 2 then None
      else Some (Join [BASEDIR, ''objects'', take 2 hash]))"

subsection \<open>The file system\<close>

text \<open>
  A directory lists its entries by name, in the order \<^verbatim>\<open>Readdir\<close> reports them. A file
  holds its bytes (a Go string is a byte sequence, and so is a HOL string).
\<close>

datatype node = File string | Dir "(string \<times> node) list"

fun fsLookup :: "node \<Rightarrow> string list \<Rightarrow> node option" where
  "fsLookup n [] = Some n"
| "fsLookup n (c # cs) =
     (case n of
        File _ \<Rightarrow> None
      | Dir es \<Rightarrow> (case map_of es c of None \<Rightarrow> None | Some m \<Rightarrow> fsLookup m cs))"

text \<open>
  \<open>fsPut p v r\<close> places \<open>v\<close> at \<open>p\<close> (a new entry goes last in its directory) and
  \<open>fsRemove p r\<close> removes the entry at \<open>p\<close> with everything below it. Both leave the tree
  as it is when the parent of \<open>p\<close> is not a directory of the tree; the operations below
  check that before they call them.
\<close>

fun fsPut :: "string list \<Rightarrow> node \<Rightarrow> node \<Rightarrow> node" where
  "fsPut [] v n = v"
| "fsPut (c # cs) v n =
     (case n of
        File b \<Rightarrow> File b
      | Dir es \<Rightarrow>
          (case map_of es c of
             Some m \<Rightarrow> Dir (AList.update c (fsPut cs v m) es)
           | None \<Rightarrow> if cs = [] then Dir (es @ [(c, v)]) else Dir es))"

fun fsRemove :: "string list \<Rightarrow> node \<Rightarrow> node" where
  "fsRemove [] n = n"
| "fsRemove (c # cs) n =
     (case n of
        File b \<Rightarrow> File b
      | Dir es \<Rightarrow>
          (if cs = [] then Dir (AList.delete c es)
           else (case map_of es c of
                   Some m \<Rightarrow> Dir (AList.update c (fsRemove cs m) es)
                 | None \<Rightarrow> Dir es)))"

definition isDir :: "node \<Rightarrow> bool" where
  "isDir n = (case n of Dir _ \<Rightarrow> True | File _ \<Rightarrow> False)"

definition isDirAt :: "node \<Rightarrow> string list \<Rightarrow> bool" where
  "isDirAt r p = (case fsLookup r p of Some (Dir _) \<Rightarrow> True | _ \<Rightarrow> False)"

text \<open>
  How the operating system resolves a path string, relative to the working directory in
  which the program runs (the root of the tree): the list of names from that directory
  down. Every component, the empty one of a trailing separator and \<^verbatim>\<open>.\<close> included, is
  looked up in a directory that exists; \<^verbatim>\<open>..\<close> leads to the directory above. The last
  name itself need not exist. The empty path names nothing. The model holds only what
  lies below the working directory, so an absolute path and a path that climbs above
  the working directory name nothing either.
\<close>

fun walkFs :: "node \<Rightarrow> string list \<Rightarrow> string list \<Rightarrow> string list option" where
  "walkFs r cur [] = Some cur"
| "walkFs r cur (c # cs) =
     (if \<not> isDirAt r cur then None
      else if c = [] \<or> c = ''.'' then walkFs r cur cs
      else if c = ''..'' then (if cur = [] then None else walkFs r (butlast cur) cs)
      else walkFs r (cur @ [c]) cs)"

definition osPath :: "node \<Rightarrow> string \<Rightarrow> string list option" where
  "osPath r s = (if s = [] \<or> rooted s then None else walkFs r [] (splitOn (CHR ''/'') s))"

text \<open>
  The calls of package \<^verbatim>\<open>os\<close> that the program makes, on the root of the tree. \<open>None\<close> is
  a non-nil error. A file is created or written only in an existing directory and never
  over a directory.
\<close>

definition parentIsDir :: "node \<Rightarrow> string list \<Rightarrow> bool" where
  "parentIsDir r p = (p \<noteq> [] \<and> (case fsLookup r (butlast p) of Some (Dir _) \<Rightarrow> True | _ \<Rightarrow> False))"

text \<open>\<^verbatim>\<open>os.Open\<close>: the node, file or directory, that the path names.\<close>

definition osOpen :: "string \<Rightarrow> node \<Rightarrow> node option" where
  "osOpen path r = (case osPath r path of None \<Rightarrow> None | Some p \<Rightarrow> fsLookup r p)"

text \<open>\<^verbatim>\<open>os.ReadFile\<close>: reading a directory is an error.\<close>

definition osReadFile :: "string \<Rightarrow> node \<Rightarrow> string option" where
  "osReadFile path r =
     (case osOpen path r of Some (File b) \<Rightarrow> Some b | _ \<Rightarrow> None)"

text \<open>
  \<^verbatim>\<open>os.Create\<close>, and \<^verbatim>\<open>os.OpenFile\<close> with \<^verbatim>\<open>O_WRONLY|O_TRUNC|O_CREATE\<close>: the file is there
  and empty afterwards.
\<close>

definition osCreate :: "string \<Rightarrow> node \<Rightarrow> node option" where
  "osCreate path r =
     (case osPath r path of
        None \<Rightarrow> None
      | Some p \<Rightarrow>
          if \<not> parentIsDir r p then None
          else (case fsLookup r p of
                  Some (Dir _) \<Rightarrow> None
                | _ \<Rightarrow> Some (fsPut p (File []) r)))"

text \<open>
  \<^verbatim>\<open>os.OpenFile\<close> with \<^verbatim>\<open>O_RDWR|O_CREATE\<close>: an existing file keeps its content, a missing
  one is created empty. The content is returned with the new tree.
\<close>

definition osOpenRW :: "string \<Rightarrow> node \<Rightarrow> (string \<times> node) option" where
  "osOpenRW path r =
     (case osPath r path of
        None \<Rightarrow> None
      | Some p \<Rightarrow>
          if \<not> parentIsDir r p then None
          else (case fsLookup r p of
                  Some (Dir _) \<Rightarrow> None
                | Some (File b) \<Rightarrow> Some (b, r)
                | None \<Rightarrow> Some ([], fsPut p (File []) r)))"

text \<open>
  Writing through an open handle: the bytes replace the content of the file the handle
  was opened on. Every handle of the program is written from offset 0 of an empty file.
\<close>

definition writeFile :: "string \<Rightarrow> string \<Rightarrow> node \<Rightarrow> node" where
  "writeFile path b r =
     (case osPath r path of
        None \<Rightarrow> r
      | Some p \<Rightarrow> (case fsLookup r p of Some (File _) \<Rightarrow> fsPut p (File b) r | _ \<Rightarrow> r))"

text \<open>
  The directories along a list of names, the missing ones made; \<open>None\<close> when a file
  stands where a directory is needed. It is what \<^verbatim>\<open>os.MkdirAll\<close> below does on a path
  that consists of names only.
\<close>

fun fsMkdirAll :: "string list \<Rightarrow> node \<Rightarrow> node option" where
  "fsMkdirAll [] n = (case n of Dir _ \<Rightarrow> Some n | File _ \<Rightarrow> None)"
| "fsMkdirAll (c # cs) n =
     (case n of
        File _ \<Rightarrow> None
      | Dir es \<Rightarrow>
          (case map_of es c of
             Some m \<Rightarrow> map_option (\<lambda>m'. Dir (AList.update c m' es)) (fsMkdirAll cs m)
           | None \<Rightarrow> map_option (\<lambda>m'. Dir (es @ [(c, m')])) (fsMkdirAll cs (Dir []))))"

text \<open>
  \<^verbatim>\<open>os.MkdirAll\<close> on a path string makes the missing directories one after the other as
  the path is walked, and stops with an error at a file; what it has made by then
  stays. The result is whether it succeeded, and the tree.
\<close>

fun mkdirWalk :: "node \<Rightarrow> string list \<Rightarrow> string list \<Rightarrow> bool \<times> node" where
  "mkdirWalk r cur [] = (True, r)"
| "mkdirWalk r cur (c # cs) =
     (if c = [] \<or> c = ''.'' then mkdirWalk r cur cs
      else if c = ''..'' then (if cur = [] then (False, r) else mkdirWalk r (butlast cur) cs)
      else (case fsLookup r (cur @ [c]) of
              Some (Dir _) \<Rightarrow> mkdirWalk r (cur @ [c]) cs
            | Some (File _) \<Rightarrow> (False, r)
            | None \<Rightarrow> mkdirWalk (fsPut (cur @ [c]) (Dir []) r) (cur @ [c]) cs))"

definition osMkdirAll :: "string \<Rightarrow> node \<Rightarrow> bool \<times> node" where
  "osMkdirAll path r =
     (if path = [] \<or> rooted path \<or> \<not> isDirAt r [] then (False, r)
      else mkdirWalk r [] (splitOn (CHR ''/'') path))"

text \<open>
  \<^verbatim>\<open>os.Rename\<close> (rename(2)): the source must exist and the new parent be a directory. A
  file replaces a file, never a directory; a directory replaces only an empty directory;
  nothing moves into itself.
\<close>

definition osRename :: "string \<Rightarrow> string \<Rightarrow> node \<Rightarrow> node option" where
  "osRename old new r =
     (case (osPath r old, osPath r new) of
        (Some p, Some q) \<Rightarrow>
          (case fsLookup r p of
             None \<Rightarrow> None
           | Some src \<Rightarrow>
               if p = [] \<or> \<not> parentIsDir r q then None
               else if p = q then Some r
               else if take (length p) q = p then None
               else (case (src, fsLookup r q) of
                       (File _, Some (Dir _)) \<Rightarrow> None
                     | (Dir _, Some (File _)) \<Rightarrow> None
                     | (Dir _, Some (Dir (e # es))) \<Rightarrow> None
                     | _ \<Rightarrow> Some (fsPut q src (fsRemove p r))))
      | _ \<Rightarrow> None)"

text \<open>\<^verbatim>\<open>os.Remove\<close>: a file or an empty directory.\<close>

definition osRemove :: "string \<Rightarrow> node \<Rightarrow> node option" where
  "osRemove path r =
     (case osPath r path of
        None \<Rightarrow> None
      | Some p \<Rightarrow>
          if p = [] then None
          else (case fsLookup r p of
                  None \<Rightarrow> None
                | Some (Dir (e # es)) \<Rightarrow> None
                | _ \<Rightarrow> Some (fsRemove p r)))"

text \<open>
  \<^verbatim>\<open>os.RemoveAll\<close>: the entry and everything below it; a missing path is no error, the
  working directory itself is refused.
\<close>

definition osRemoveAll :: "string \<Rightarrow> node \<Rightarrow> node option" where
  "osRemoveAll path r =
     (case osPath r path of
        None \<Rightarrow> (if path = [] then Some r else None)
      | Some p \<Rightarrow>
          if p = [] then None
          else (case fsLookup r p of None \<Rightarrow> Some r | Some _ \<Rightarrow> Some (fsRemove p r)))"

text \<open>\<^verbatim>\<open>Readdir(-1)\<close> on an opened node: names with their \<^verbatim>\<open>IsDir()\<close>; an error on a file.\<close>

definition Readdir :: "node \<Rightarrow> (string \<times> bool) list option" where
  "Readdir n = (case n of File _ \<Rightarrow> None | Dir es \<Rightarrow> Some (map (\<lambda>(name, m). (name, isDir m)) es))"

subsection \<open>Library functions, results and the world\<close>

record Commit =
  TreeHash :: string
  ParentCommit :: string
  Message :: string
  Timestamp :: int

text \<open>
  The error values the program returns: an error of an \<^verbatim>\<open>os\<close> call on a path, a
  compressed stream that does not decode, the two \<^verbatim>\<open>fmt.Errorf\<close> values of \<^verbatim>\<open>createBlob\<close>,
  the failures of the \<^verbatim>\<open>gob\<close> encoder and decoder, the nil value that \<^verbatim>\<open>%v\<close> prints
  as \<^verbatim>\<open><nil>\<close>, and a value wrapped in the text of a caller.
\<close>

datatype err =
    PathError string
  | CorruptStream
  | HashLength nat
  | SubfolderError string
  | GobEncodeError
  | GobDecodeError
  | NilValue
  | Wrapped string err

datatype 'a result = Ok 'a | Error err | Panic | Fatal

text \<open>What the program prints: a message, a message with an error, one entry of the log.\<close>

datatype out = Text string | ErrText string err | LogEntry string Commit

text \<open>
  The packages the program imports are parameters of the model: the SHA-1 digest, the
  LZW writer (the whole stream it has written once closed) and reader (the bytes decoded
  before the stream ended, and whether it ended well), the \<^verbatim>\<open>gob\<close> encoding of a commit,
  and the stream of raw draws behind \<^verbatim>\<open>rand.Intn\<close>.
\<close>

record lib =
  sha1Sum :: "string \<Rightarrow> string"
  lzwEncode :: "string \<Rightarrow> string"
  lzwDecode :: "string \<Rightarrow> string \<times> bool"
  gobEncode :: "Commit \<Rightarrow> string option"
  gobDecode :: "string \<Rightarrow> Commit option"
  randDraw :: "nat \<Rightarrow> nat"

record world =
  root :: node
  rngPos :: nat
  clock :: int
  DEBUG :: bool
  stdout :: "out list"

definition say :: "out \<Rightarrow> world \<Rightarrow> world" where
  "say x w = w\<lparr>stdout := stdout w @ [x]\<rparr>"

definition debugSay :: "out \<Rightarrow> world \<Rightarrow> world" where
  "debugSay x w = (if DEBUG w then say x w else w)"

text \<open>\<^verbatim>\<open>if err != nil { return nil, err }\<close> after a call: the failure is handed on.\<close>

definition andThen ::
  "'a result \<times> world \<Rightarrow> ('a \<Rightarrow> world \<Rightarrow> 'b result \<times> world) \<Rightarrow> 'b result \<times> world" where
  "andThen m f =
     (case m of
        (Ok x, w) \<Rightarrow> f x w
      | (Error e, w) \<Rightarrow> (Error e, w)
      | (Panic, w) \<Rightarrow> (Panic, w)
      | (Fatal, w) \<Rightarrow> (Fatal, w))"

text \<open>\<^verbatim>\<open>hex.EncodeToString\<close>: two lower-case digits for each byte.\<close>

definition hexDigit :: "nat \<Rightarrow> char" where
  "hexDigit n = ''0123456789abcdef'' ! n"

definition hexEncode :: "string \<Rightarrow> string" where
  "hexEncode bs = concat (map (\<lambda>c. [hexDigit (of_char c div 16), hexDigit (of_char c mod 16)]) bs)"

definition letters :: string where
  "letters = ''abcdefghijklmnopqrstuvwxyzABCDEFGHIJKLMNOPQRSTUVWXYZ0123456789''"

text \<open>\<^verbatim>\<open>randomString\<close>: \<^verbatim>\<open>rand.Intn(len(letters))\<close> is the next draw reduced below the bound.\<close>

definition randomString :: "lib \<Rightarrow> nat \<Rightarrow> world \<Rightarrow> string \<times> world" where
  "randomString L n w =
     (map (\<lambda>i. letters ! (randDraw L (rngPos w + i) mod length letters)) [0..<n],
      w\<lparr>rngPos := rngPos w + n\<rparr>)"

definition quoted :: "string \<Rightarrow> string" where
  "quoted s = [CHR 0x22] @ s @ [CHR 0x22]"

definition TAB :: char where
  "TAB = CHR 0x09"

definition NL :: char where
  "NL = CHR 0x0A"

subsection \<open>The object store\<close>

text \<open>The successive \<^verbatim>\<open>buf[:n]\<close> of the read loop of \<^verbatim>\<open>createBlob\<close>, 1024 bytes at a time.\<close>

function readChunks :: "string \<Rightarrow> string list" where
  "readChunks bs = (if bs = [] then [] else take 1024 bs # readChunks (drop 1024 bs))"
  by pat_completeness auto
termination
  by (relation "measure length") auto

declare readChunks.simps [simp del]

text \<open>
  \<^verbatim>\<open>createBlob\<close>. The source is opened first and read after the temporary file has been
  created, so the bytes read are those the path holds then. The deferred
  \<^verbatim>\<open>lzwWriter.Close()\<close> still writes the stream of no input when the read fails.
\<close>

definition createBlob :: "lib \<Rightarrow> string \<Rightarrow> world \<Rightarrow> string result \<times> world" where
  "createBlob L path w =
     (case osOpen path (root w) of
        None \<Rightarrow> (Error (PathError path), say (ErrText ''unable to read file'' (PathError path)) w)
      | Some _ \<Rightarrow>
          (let (name, w1) = randomString L 6 w;
               tempFileName = BASEDIR @ ''/temp/'' @ name
           in case osCreate tempFileName (root w1) of
                None \<Rightarrow> (Error (PathError tempFileName), w1)
              | Some r2 \<Rightarrow>
                  (case osOpen path r2 of
                     Some (File content) \<Rightarrow>
                       (let streamed = concat (readChunks content);
                            r3 = writeFile tempFileName (lzwEncode L streamed) r2;
                            w3 = w1\<lparr>root := r3\<rparr>;
                            checksum = hexEncode (sha1Sum L streamed)
                        in if length checksum \<noteq> 40
                           then (Error (HashLength (length checksum)), w3)
                           else (case getObjectFolderPath checksum of
                                   None \<Rightarrow> (Panic, w3)
                                 | Some subfolderPath \<Rightarrow>
                                     (case osMkdirAll subfolderPath r3 of
                                        (False, r4) \<Rightarrow>
                                          (Error (SubfolderError subfolderPath), w3\<lparr>root := r4\<rparr>)
                                      | (True, r4) \<Rightarrow>
                                          (case getObjectPath checksum of
                                             None \<Rightarrow> (Panic, w3\<lparr>root := r4\<rparr>)
                                           | Some objPath \<Rightarrow>
                                               (case osRename tempFileName objPath r4 of
                                                  None \<Rightarrow> (Error (PathError tempFileName), w3\<lparr>root := r4\<rparr>)
                                                | Some r5 \<Rightarrow> (Ok checksum, w3\<lparr>root := r5\<rparr>))))))
                   | _ \<Rightarrow>
                       (Error (PathError path),
                        say (ErrText ''unable to read file'' (PathError path))
                          (w1\<lparr>root := writeFile tempFileName (lzwEncode L []) r2\<rparr>)))))"

text \<open>\<^verbatim>\<open>readObjectFile\<close>: a directory opens but does not read.\<close>

definition readObjectFile :: "lib \<Rightarrow> string \<Rightarrow> world \<Rightarrow> string result \<times> world" where
  "readObjectFile L path w =
     (case osOpen path (root w) of
        None \<Rightarrow> (Error (PathError path), say (ErrText ''unable to read file'' (PathError path)) w)
      | Some (Dir _) \<Rightarrow>
          (Error (PathError path),
           say (ErrText ''failed to decompress object file, error'' (PathError path)) w)
      | Some (File b) \<Rightarrow>
          (case lzwDecode L b of
             (decompressedData, True) \<Rightarrow> (Ok decompressedData, w)
           | (_, False) \<Rightarrow>
               (Error CorruptStream,
                say (ErrText ''failed to decompress object file, error'' CorruptStream) w)))"

text \<open>\<^verbatim>\<open>readCommit\<close>.\<close>

definition readCommit :: "lib \<Rightarrow> string \<Rightarrow> world \<Rightarrow> Commit result \<times> world" where
  "readCommit L commitHash w =
     (case getObjectPath commitHash of
        None \<Rightarrow> (Panic, w)
      | Some objPath \<Rightarrow>
          andThen (readObjectFile L objPath w) (\<lambda>commitFileContent w1.
            case gobDecode L commitFileContent of
              None \<Rightarrow> (Error (Wrapped ''error decoding commit'' GobDecodeError), w1)
            | Some commit \<Rightarrow> (Ok commit, w1)))"

text \<open>
  \<^verbatim>\<open>readTree\<close>. A line that does not split into three fields is passed over
  (\<^verbatim>\<open>continue\<close>); the rows kept have three fields each and are held as triples.
\<close>

type_synonym row = "string \<times> string \<times> string"

fun treeLines :: "string list \<Rightarrow> row list" where
  "treeLines [] = []"
| "treeLines (line # lines) =
     (case splitOn TAB line of
        [kind, hash, name] \<Rightarrow> (kind, hash, name) # treeLines lines
      | _ \<Rightarrow> treeLines lines)"

definition readTree :: "lib \<Rightarrow> string \<Rightarrow> world \<Rightarrow> row list result \<times> world" where
  "readTree L treeHash w =
     (case getObjectPath treeHash of
        None \<Rightarrow> (Panic, w)
      | Some objPath \<Rightarrow>
          andThen (readObjectFile L objPath w) (\<lambda>treeFileContent w1.
            (Ok (treeLines (splitOn NL treeFileContent)), w1)))"

subsection \<open>HEAD and the branch files\<close>

text \<open>\<^verbatim>\<open>getCurrentHead\<close>: the content of the branch file that \<^verbatim>\<open>HEAD\<close> names. It writes nothing.\<close>

definition getCurrentHead :: "world \<Rightarrow> string result" where
  "getCurrentHead w =
     (case osReadFile (BASEDIR @ ''/HEAD'') (root w) of
        None \<Rightarrow> Error (PathError (BASEDIR @ ''/HEAD''))
      | Some headFilePath \<Rightarrow>
          (case osReadFile (BASEDIR @ ''/'' @ headFilePath) (root w) of
             None \<Rightarrow> Error (PathError (BASEDIR @ ''/'' @ headFilePath))
           | Some currentCommitHash \<Rightarrow> Ok currentCommitHash))"

text \<open>
  \<^verbatim>\<open>getCurrentBranch\<close>: \<^verbatim>\<open>headFilePath[len(basePath)+1:]\<close> panics on a \<^verbatim>\<open>HEAD\<close> shorter than
  the prefix it strips.
\<close>

definition getCurrentBranch :: "world \<Rightarrow> string result" where
  "getCurrentBranch w =
     (case osReadFile (BASEDIR @ ''/HEAD'') (root w) of
        None \<Rightarrow> Error (PathError (BASEDIR @ ''/HEAD''))
      | Some headFilePath \<Rightarrow>
          (let basePath = Join [''refs'', ''heads''] in
           if length headFilePath < length basePath + 1 then Panic
           else Ok (drop (length basePath + 1) headFilePath)))"

text \<open>\<^verbatim>\<open>updateCurrentHead\<close>.\<close>

definition updateCurrentHead :: "string \<Rightarrow> world \<Rightarrow> unit result \<times> world" where
  "updateCurrentHead newCommitHash w =
     (case osReadFile (BASEDIR @ ''/HEAD'') (root w) of
        None \<Rightarrow> (Error (PathError (BASEDIR @ ''/HEAD'')), w)
      | Some headFilePath \<Rightarrow>
          (let branchPath = BASEDIR @ ''/'' @ headFilePath in
           case osCreate branchPath (root w) of
             None \<Rightarrow> (Error (PathError branchPath), w)
           | Some r1 \<Rightarrow> (Ok (), w\<lparr>root := writeFile branchPath newCommitHash r1\<rparr>)))"

text \<open>\<^verbatim>\<open>switchHead\<close>.\<close>

definition switchHead :: "string \<Rightarrow> world \<Rightarrow> unit result \<times> world" where
  "switchHead branchName w =
     (case osCreate (BASEDIR @ ''/HEAD'') (root w) of
        None \<Rightarrow> (Error (PathError (BASEDIR @ ''/HEAD'')), w)
      | Some r1 \<Rightarrow>
          (Ok (), w\<lparr>root := writeFile (BASEDIR @ ''/HEAD'') (''refs/heads/'' @ branchName) r1\<rparr>))"

text \<open>
  \<^verbatim>\<open>prepareDirs\<close>, which \<^verbatim>\<open>main\<close> runs before every command. \<^verbatim>\<open>HEAD\<close> is written only
  when the read of its first bytes meets the end of the file at once.
\<close>

fun mkdirs :: "string list \<Rightarrow> node \<Rightarrow> (string \<times> node + node)" where
  "mkdirs [] r = Inr r"
| "mkdirs (d # ds) r =
     (case osMkdirAll d r of (False, r') \<Rightarrow> Inl (d, r') | (True, r') \<Rightarrow> mkdirs ds r')"

definition prepareDirs :: "world \<Rightarrow> unit result \<times> world" where
  "prepareDirs w =
     (case mkdirs [BASEDIR, BASEDIR @ ''/objects'', BASEDIR @ ''/temp'', BASEDIR @ ''/refs'',
                   BASEDIR @ ''/refs/heads''] (root w) of
        Inl (d, r1) \<Rightarrow> (Error (PathError d), w\<lparr>root := r1\<rparr>)
      | Inr r1 \<Rightarrow>
          (case osOpenRW (BASEDIR @ ''/refs/heads/main'') r1 of
             None \<Rightarrow> (Error (PathError (BASEDIR @ ''/refs/heads/main'')), w\<lparr>root := r1\<rparr>)
           | Some (_, r2) \<Rightarrow>
               (case osOpenRW (BASEDIR @ ''/HEAD'') r2 of
                  None \<Rightarrow> (Error (PathError (BASEDIR @ ''/HEAD'')), w\<lparr>root := r2\<rparr>)
                | Some (content, r3) \<Rightarrow>
                    (let r4 = (if content = []
                               then writeFile (BASEDIR @ ''/HEAD'') (Join [''refs'', ''heads'', ''main'']) r3
                               else r3)
                     in case osMkdirAll (BASEDIR @ ''/refs/tags'') r4 of
                          (False, r5) \<Rightarrow>
                            (Error (PathError (BASEDIR @ ''/refs/tags'')), w\<lparr>root := r5\<rparr>)
                        | (True, r5) \<Rightarrow> (Ok (), w\<lparr>root := r5\<rparr>)))))"

subsection \<open>Trees and commits\<close>

text \<open>
  A handle that stays open while other calls run is written through its path:
  \<^verbatim>\<open>tempFile.WriteString(row)\<close> appends to the file.
\<close>

definition appendFile :: "string \<Rightarrow> string \<Rightarrow> node \<Rightarrow> node" where
  "appendFile path b r =
     (case osPath r path of
        None \<Rightarrow> r
      | Some p \<Rightarrow> (case fsLookup r p of Some (File old) \<Rightarrow> fsPut p (File (old @ b)) r | _ \<Rightarrow> r))"

definition treeRow :: "string \<Rightarrow> string \<Rightarrow> string \<Rightarrow> string" where
  "treeRow kind checksum name = kind @ [TAB] @ checksum @ [TAB] @ name @ [NL]"

text \<open>
  The loop of \<^verbatim>\<open>createTree\<close> over the entries that \<^verbatim>\<open>Readdir\<close> returned; \<open>rec\<close> is the
  recursive call. Every failure below it ends the process (\<^verbatim>\<open>log.Fatalf\<close>).
\<close>

fun treeLoop ::
  "(string \<Rightarrow> world \<Rightarrow> (string result \<times> world) option) \<Rightarrow> lib \<Rightarrow> string \<Rightarrow> string \<Rightarrow>
   (string \<times> bool) list \<Rightarrow> world \<Rightarrow> (unit result \<times> world) option" where
  "treeLoop rec L folderPath tempFileName [] w = Some (Ok (), w)"
| "treeLoop rec L folderPath tempFileName ((name, isdir) # files) w =
     (let filePath = folderPath @ ''/'' @ name in
      if isdir then
        (if name \<in> set IGNORE_FOLDERS then treeLoop rec L folderPath tempFileName files w
         else (case rec filePath w of
                 None \<Rightarrow> None
               | Some (Ok checksum, w1) \<Rightarrow>
                   treeLoop rec L folderPath tempFileName files
                     (w1\<lparr>root := appendFile tempFileName (treeRow ''tree'' checksum name) (root w1)\<rparr>)
               | Some (Error e, w1) \<Rightarrow> Some (Fatal, w1)
               | Some (Panic, w1) \<Rightarrow> Some (Panic, w1)
               | Some (Fatal, w1) \<Rightarrow> Some (Fatal, w1)))
      else (case createBlob L filePath w of
              (Ok checksum, w1) \<Rightarrow>
                treeLoop rec L folderPath tempFileName files
                  (w1\<lparr>root := appendFile tempFileName (treeRow ''blob'' checksum name) (root w1)\<rparr>)
            | (Error e, w1) \<Rightarrow> Some (Fatal, w1)
            | (Panic, w1) \<Rightarrow> Some (Panic, w1)
            | (Fatal, w1) \<Rightarrow> Some (Fatal, w1)))"

text \<open>
  \<^verbatim>\<open>createTree\<close>. The recursion follows the directories found on the way; the first
  argument bounds its depth, and \<open>None\<close> says that the bound was too small.
\<close>

primrec createTree :: "nat \<Rightarrow> lib \<Rightarrow> string \<Rightarrow> world \<Rightarrow> (string result \<times> world) option" where
  "createTree 0 L folderPath w = None"
| "createTree (Suc k) L folderPath w =
     (let (name, w1) = randomString L 6 w;
          tempFileName = BASEDIR @ ''/temp/'' @ name
      in case osCreate tempFileName (root w1) of
           None \<Rightarrow> Some (Error (PathError tempFileName), w1)
         | Some r2 \<Rightarrow>
             (case osOpen folderPath r2 of
                None \<Rightarrow> Some (Fatal, w1\<lparr>root := r2\<rparr>)
              | Some dir \<Rightarrow>
                  (case Readdir dir of
                     None \<Rightarrow> Some (Fatal, w1\<lparr>root := r2\<rparr>)
                   | Some files \<Rightarrow>
                       (case treeLoop (createTree k L) L folderPath tempFileName files
                               (w1\<lparr>root := r2\<rparr>) of
                          None \<Rightarrow> None
                        | Some (Ok _, w3) \<Rightarrow>
                            (case createBlob L tempFileName w3 of
                               (res, w4) \<Rightarrow>
                                 (let w5 = (if DEBUG w4 then w4
                                            else (case osRemove tempFileName (root w4) of
                                                    None \<Rightarrow> w4
                                                  | Some r5 \<Rightarrow> w4\<lparr>root := r5\<rparr>))
                                  in case res of
                                       Ok checksum \<Rightarrow> Some (Ok checksum, w5)
                                     | Error e \<Rightarrow> Some (Fatal, w5)
                                     | Panic \<Rightarrow> Some (Panic, w4)
                                     | Fatal \<Rightarrow> Some (Fatal, w4)))
                        | Some (Error e, w3) \<Rightarrow> Some (Error e, w3)
                        | Some (Panic, w3) \<Rightarrow> Some (Panic, w3)
                        | Some (Fatal, w3) \<Rightarrow> Some (Fatal, w3)))))"

text \<open>
  \<^verbatim>\<open>createCommit\<close>. After \<^verbatim>\<open>createBlob\<close> the source dereferences the returned pointer
  before it looks at the error: \<^verbatim>\<open>updateCurrentHead(*commitHash)\<close> panics on the nil
  pointer that comes with every error of \<^verbatim>\<open>createBlob\<close>. The error of
  \<^verbatim>\<open>updateCurrentHead\<close> itself is dropped.
\<close>

definition createCommit ::
  "lib \<Rightarrow> string \<Rightarrow> string \<Rightarrow> string \<Rightarrow> world \<Rightarrow> string result \<times> world" where
  "createCommit L treeHash parentCommitHash message w =
     (let commit = \<lparr>TreeHash = treeHash, ParentCommit = parentCommitHash,
                     Message = message, Timestamp = clock w\<rparr>;
          (name, w1) = randomString L 6 w;
          tempFileName = BASEDIR @ ''/temp/'' @ name
      in case osCreate tempFileName (root w1) of
           None \<Rightarrow> (Error (PathError tempFileName), w1)
         | Some r2 \<Rightarrow>
             (case gobEncode L commit of
                None \<Rightarrow>
                  (Error (Wrapped ''failed to seriliaze commit, error'' GobEncodeError),
                   w1\<lparr>root := r2\<rparr>)
              | Some bytes \<Rightarrow>
                  (case createBlob L tempFileName (w1\<lparr>root := writeFile tempFileName bytes r2\<rparr>) of
                     (Ok commitHash, w3) \<Rightarrow> (Ok commitHash, snd (updateCurrentHead commitHash w3))
                   | (Error e, w3) \<Rightarrow> (Panic, w3)
                   | (Panic, w3) \<Rightarrow> (Panic, w3)
                   | (Fatal, w3) \<Rightarrow> (Fatal, w3))))"

subsection \<open>The log\<close>

text \<open>
  The loop of \<^verbatim>\<open>printLog\<close>: read the commit, print it, go on with its parent unless that
  is empty. Nothing in the loop bounds it, so not returning is the value \<open>None\<close>.
\<close>

partial_function (option) logLoop :: "lib \<Rightarrow> string \<Rightarrow> world \<Rightarrow> (unit result \<times> world) option" where
  "logLoop L currentCommit w =
     (case readCommit L currentCommit w of
        (Ok commit, w1) \<Rightarrow>
          (let w2 = say (LogEntry currentCommit commit) w1 in
           if length (ParentCommit commit) > 0 then logLoop L (ParentCommit commit) w2
           else Some (Ok (), w2))
      | (Error e, w1) \<Rightarrow> Some (Error e, w1)
      | (Panic, w1) \<Rightarrow> Some (Panic, w1)
      | (Fatal, w1) \<Rightarrow> Some (Fatal, w1))"

declare logLoop.simps [code]

definition printLog :: "lib \<Rightarrow> world \<Rightarrow> (unit result \<times> world) option" where
  "printLog L w =
     (case getCurrentHead w of
        Ok currentCommit \<Rightarrow> logLoop L currentCommit w
      | Error e \<Rightarrow> Some (Error e, w)
      | Panic \<Rightarrow> Some (Panic, w)
      | Fatal \<Rightarrow> Some (Fatal, w))"

subsection \<open>Checkout\<close>

text \<open>The search loops of \<^verbatim>\<open>switchDirToCommit\<close>: a row of that kind and name.\<close>

definition found :: "string \<Rightarrow> string \<Rightarrow> row list \<Rightarrow> bool" where
  "found kind name commitFiles = list_ex (\<lambda>(k, h, n). k = kind \<and> n = name) commitFiles"

text \<open>The first loop of \<^verbatim>\<open>switchDirToCommit\<close>, over the entries of the directory.\<close>

fun pruneLoop :: "string \<Rightarrow> row list \<Rightarrow> (string \<times> bool) list \<Rightarrow> world \<Rightarrow> unit result \<times> world" where
  "pruneLoop path commitFiles [] w = (Ok (), w)"
| "pruneLoop path commitFiles ((name, isdir) # currentFiles) w =
     (let fullPath = Join [path, name] in
      if isdir then
        (if name \<in> set IGNORE_FOLDERS then pruneLoop path commitFiles currentFiles w
         else if found ''tree'' name commitFiles then pruneLoop path commitFiles currentFiles w
         else (case osRemoveAll fullPath (root w) of
                 None \<Rightarrow> (Error (PathError fullPath), w)
               | Some r1 \<Rightarrow>
                   pruneLoop path commitFiles currentFiles
                     (debugSay (Text (''Removed folder '' @ quoted fullPath @ [NL])) (w\<lparr>root := r1\<rparr>))))
      else
        (if found ''blob'' name commitFiles then pruneLoop path commitFiles currentFiles w
         else (case osRemove fullPath (root w) of
                 None \<Rightarrow> (Error (PathError fullPath), w)
               | Some r1 \<Rightarrow>
                   pruneLoop path commitFiles currentFiles
                     (debugSay (Text (''Removed file '' @ quoted fullPath @ [NL])) (w\<lparr>root := r1\<rparr>)))))"

text \<open>
  The second loop, over the rows of the tree. The new file is opened (and emptied)
  before the object is; \<^verbatim>\<open>io.Copy\<close> writes what decodes before a corrupt stream ends.
\<close>

fun extractLoop :: "lib \<Rightarrow> string \<Rightarrow> row list \<Rightarrow> world \<Rightarrow> unit result \<times> world" where
  "extractLoop L path [] w = (Ok (), w)"
| "extractLoop L path ((kind, hash, name) # commitFiles) w =
     (let newFileName = Join [path, name] in
      if kind = ''tree'' then
        (case osMkdirAll newFileName (root w) of
           (False, r1) \<Rightarrow>
             (Error (Wrapped ''failed to extract old file'' (PathError newFileName)),
              w\<lparr>root := r1\<rparr>)
         | (True, r1) \<Rightarrow>
             extractLoop L path commitFiles
               (debugSay (Text (''Created folder '' @ quoted newFileName @ [NL])) (w\<lparr>root := r1\<rparr>)))
      else if kind = ''blob'' then
        (case osCreate newFileName (root w) of
           None \<Rightarrow> (Error (PathError newFileName), w)
         | Some r1 \<Rightarrow>
             (case getObjectPath hash of
                None \<Rightarrow> (Panic, w\<lparr>root := r1\<rparr>)
              | Some objPath \<Rightarrow>
                  (case osOpen objPath r1 of
                     None \<Rightarrow>
                       (Error (PathError objPath),
                        say (ErrText ''unable to read file'' (PathError objPath)) (w\<lparr>root := r1\<rparr>))
                   | Some (Dir _) \<Rightarrow>
                       (Error (Wrapped ''failed to extract old file'' (PathError objPath)),
                        w\<lparr>root := r1\<rparr>)
                   | Some (File b) \<Rightarrow>
                       (case lzwDecode L b of
                          (data, ok) \<Rightarrow>
                            (let w2 = w\<lparr>root := writeFile newFileName data r1\<rparr> in
                             if ok
                             then extractLoop L path commitFiles
                                    (debugSay (Text (''Updated file '' @ quoted newFileName @ [NL])) w2)
                             else (Error (Wrapped ''failed to extract old file'' CorruptStream), w2))))))
      else extractLoop L path commitFiles w)"

text \<open>\<^verbatim>\<open>switchDirToCommit\<close>: a directory that does not open or list ends the process.\<close>

definition switchDirToCommit :: "lib \<Rightarrow> string \<Rightarrow> row list \<Rightarrow> world \<Rightarrow> unit result \<times> world" where
  "switchDirToCommit L path commitFiles w =
     (case osOpen path (root w) of
        None \<Rightarrow> (Fatal, w)
      | Some dir \<Rightarrow>
          (case Readdir dir of
             None \<Rightarrow> (Fatal, w)
           | Some currentFiles \<Rightarrow>
               andThen (pruneLoop path commitFiles currentFiles w) (\<lambda>_ w1.
                 extractLoop L path commitFiles w1)))"

text \<open>
  \<^verbatim>\<open>switchTreeToCommit\<close> and its loop over the rows of kind \<^verbatim>\<open>tree\<close>; \<open>rec\<close> is the
  recursive call. A tree object may name itself below itself, so the depth is bounded by
  the first argument and \<open>None\<close> says that the bound was too small.
\<close>

fun subtreeLoop ::
  "(string \<Rightarrow> string \<Rightarrow> world \<Rightarrow> (unit result \<times> world) option) \<Rightarrow> string \<Rightarrow> row list \<Rightarrow>
   world \<Rightarrow> (unit result \<times> world) option" where
  "subtreeLoop rec path [] w = Some (Ok (), w)"
| "subtreeLoop rec path ((kind, hash, name) # tree) w =
     (if kind = ''tree'' then
        (case rec (Join [path, name]) hash w of
           None \<Rightarrow> None
         | Some (Ok _, w1) \<Rightarrow> subtreeLoop rec path tree w1
         | Some (Error e, w1) \<Rightarrow> Some (Error e, w1)
         | Some (Panic, w1) \<Rightarrow> Some (Panic, w1)
         | Some (Fatal, w1) \<Rightarrow> Some (Fatal, w1))
      else subtreeLoop rec path tree w)"

primrec switchTreeToCommit ::
  "nat \<Rightarrow> lib \<Rightarrow> string \<Rightarrow> string \<Rightarrow> world \<Rightarrow> (unit result \<times> world) option" where
  "switchTreeToCommit 0 L path treeHash w = None"
| "switchTreeToCommit (Suc k) L path treeHash w =
     (case readTree L treeHash w of
        (Ok tree, w1) \<Rightarrow>
          (case switchDirToCommit L path tree w1 of
             (Ok _, w2) \<Rightarrow> subtreeLoop (switchTreeToCommit k L) path tree w2
           | (Error e, w2) \<Rightarrow> Some (Error e, w2)
           | (Panic, w2) \<Rightarrow> Some (Panic, w2)
           | (Fatal, w2) \<Rightarrow> Some (Fatal, w2))
      | (Error e, w1) \<Rightarrow> Some (Error e, w1)
      | (Panic, w1) \<Rightarrow> Some (Panic, w1)
      | (Fatal, w1) \<Rightarrow> Some (Fatal, w1))"

text \<open>\<^verbatim>\<open>switchToCommit\<close>.\<close>

definition switchToCommit :: "nat \<Rightarrow> lib \<Rightarrow> string \<Rightarrow> world \<Rightarrow> (unit result \<times> world) option" where
  "switchToCommit k L commitHash w =
     (case readCommit L commitHash w of
        (Ok commit, w1) \<Rightarrow>
          (case switchTreeToCommit k L ''./'' (TreeHash commit) w1 of
             None \<Rightarrow> None
           | Some (Ok _, w2) \<Rightarrow> Some (updateCurrentHead commitHash w2)
           | Some (Error e, w2) \<Rightarrow> Some (Error e, w2)
           | Some (Panic, w2) \<Rightarrow> Some (Panic, w2)
           | Some (Fatal, w2) \<Rightarrow> Some (Fatal, w2))
      | (Error e, w1) \<Rightarrow> Some (Error e, w1)
      | (Panic, w1) \<Rightarrow> Some (Panic, w1)
      | (Fatal, w1) \<Rightarrow> Some (Fatal, w1))"

subsection \<open>Branches\<close>

text \<open>
  \<^verbatim>\<open>createAndSwitchBranch\<close>. The read of the first bytes of the branch file meets the end
  of the file exactly when the file is empty.
\<close>

definition createAndSwitchBranch :: "string \<Rightarrow> world \<Rightarrow> unit result \<times> world" where
  "createAndSwitchBranch branchName w =
     (let refPath = Join [BASEDIR, ''refs'', ''heads'', branchName] in
      case osOpenRW refPath (root w) of
        None \<Rightarrow> (Error (PathError refPath), w)
      | Some (content, r1) \<Rightarrow>
          if content \<noteq> []
          then (Ok (), say (Text (''Branch '' @ quoted branchName @ '' already exists'' @ [NL]))
                  (w\<lparr>root := r1\<rparr>))
          else (case getCurrentHead (w\<lparr>root := r1\<rparr>) of
                  Ok commitHash \<Rightarrow>
                    andThen (switchHead branchName (w\<lparr>root := writeFile refPath commitHash r1\<rparr>))
                      (\<lambda>_ w2.
                         (Ok (),
                          say (Text (''Created branch '' @ quoted branchName @
                                     '' and switched to it.'' @ [NL])) w2))
                | Error e \<Rightarrow> (Error e, w\<lparr>root := r1\<rparr>)
                | Panic \<Rightarrow> (Panic, w\<lparr>root := r1\<rparr>)
                | Fatal \<Rightarrow> (Fatal, w\<lparr>root := r1\<rparr>)))"

text \<open>
  \<^verbatim>\<open>checkoutBranch\<close>. Both failures that the function looks at put \<^verbatim>\<open>HEAD\<close> back with
  \<^verbatim>\<open>switchHead(*currentBranch)\<close>; a panic or a fatal exit below it ends the process where
  it stands. The error that is returned after the rollback is formatted from \<^verbatim>\<open>err\<close>, which
  by then holds the nil result of \<^verbatim>\<open>switchHead\<close>; the first error is formatted from the
  nil pointer \<^verbatim>\<open>currentBranch\<close>.
\<close>

definition restoreHead :: "string \<Rightarrow> string \<Rightarrow> world \<Rightarrow> unit result \<times> world" where
  "restoreHead currentBranch context w =
     andThen (switchHead currentBranch w) (\<lambda>_ w1. (Error (Wrapped context NilValue), w1))"

definition checkoutBranch :: "nat \<Rightarrow> lib \<Rightarrow> string \<Rightarrow> world \<Rightarrow> (unit result \<times> world) option" where
  "checkoutBranch k L branchName w =
     (case getCurrentBranch w of
        Error e \<Rightarrow>
          Some (Error (Wrapped ''failed to determine current branch, error'' NilValue), w)
      | Panic \<Rightarrow> Some (Panic, w)
      | Fatal \<Rightarrow> Some (Fatal, w)
      | Ok currentBranch \<Rightarrow>
          (case switchHead branchName w of
             (Ok _, w1) \<Rightarrow>
               (case getCurrentHead w1 of
                  Ok headCommit \<Rightarrow>
                    (case switchToCommit k L headCommit w1 of
                       None \<Rightarrow> None
                     | Some (Ok _, w2) \<Rightarrow> Some (Ok (), w2)
                     | Some (Error e, w2) \<Rightarrow>
                         Some (restoreHead currentBranch
                                 (''failed to switch to commit '' @ headCommit) w2)
                     | Some (Panic, w2) \<Rightarrow> Some (Panic, w2)
                     | Some (Fatal, w2) \<Rightarrow> Some (Fatal, w2))
                | Error e \<Rightarrow>
                    Some (restoreHead currentBranch ''failed to get current head, error'' w1)
                | Panic \<Rightarrow> Some (Panic, w1)
                | Fatal \<Rightarrow> Some (Fatal, w1))
           | (Error e, w1) \<Rightarrow> Some (Error e, w1)
           | (Panic, w1) \<Rightarrow> Some (Panic, w1)
           | (Fatal, w1) \<Rightarrow> Some (Fatal, w1)))"

subsection \<open>Names and instances used in the properties\<close>

text \<open>
  The names a relative path comes to when it is read without looking at the file system
  (\<open>None\<close> when it is empty, absolute or climbs above its start). A path that
  \<^verbatim>\<open>filepath.Clean\<close> has produced is read the same way by the operating system.
\<close>

definition lexPath :: "string \<Rightarrow> string list option" where
  "lexPath s =
     (if s = [] \<or> rooted s then None
      else (let st = rev (walk [] (splitOn (CHR ''/'') s)) in
            if ''..'' \<in> set st then None else Some st))"

text \<open>
  A name that a directory can hold: not empty, not \<^verbatim>\<open>.\<close> or \<^verbatim>\<open>..\<close>, without a
  separator.
\<close>

definition validName :: "string \<Rightarrow> bool" where
  "validName c = (c \<noteq> [] \<and> c \<noteq> ''.'' \<and> c \<noteq> ''..'' \<and> CHR ''/'' \<notin> set c)"

text \<open>
  An instance of the imported packages, to run the definitions on concrete inputs: the
  codec stores the bytes as they are, a commit is encoded as three lines, the digest is
  the first twenty bytes of the input padded with \<^verbatim>\<open>a\<close>, and draw \<open>i\<close> is \<open>i\<close>.
\<close>

definition testDecode :: "string \<Rightarrow> Commit option" where
  "testDecode b =
     (case splitOn NL b of
        [t, p, m] \<Rightarrow> Some \<lparr>TreeHash = t, ParentCommit = p, Message = m, Timestamp = 0\<rparr>
      | _ \<Rightarrow> None)"

definition testLib :: lib where
  "testLib =
     \<lparr>sha1Sum = (\<lambda>b. take 20 (b @ replicate 20 (CHR ''a''))),
      lzwEncode = (\<lambda>b. b),
      lzwDecode = (\<lambda>b. (b, True)),
      gobEncode = (\<lambda>c. Some (TreeHash c @ [NL] @ ParentCommit c @ [NL] @ Message c)),
      gobDecode = testDecode,
      randDraw = (\<lambda>i. i)\<rparr>"

definition mkWorld :: "node \<Rightarrow> world" where
  "mkWorld r = \<lparr>root = r, rngPos = 0, clock = 0, DEBUG = False, stdout = []\<rparr>"

text \<open>
  A repository whose only object, at hash \<^verbatim>\<open>abcd\<close>, holds a well-formed row followed by a
  line without a tab.
\<close>

definition garbageTree :: string where
  "garbageTree = treeRow ''blob'' ''1234'' ''a.txt'' @ ''garbage'' @ [NL]"

definition garbageRepo :: node where
  "garbageRepo =
     Dir [(''.gat'', Dir [(''objects'', Dir [(''ab'', Dir [(''cd'', File garbageTree)])])])]"

text \<open>The repository that \<^verbatim>\<open>prepareDirs\<close> makes in an empty directory.\<close>

definition freshRepo :: node where
  "freshRepo =
     Dir [(''.gat'',
           Dir [(''objects'', Dir []), (''temp'', Dir []),
                (''refs'', Dir [(''heads'', Dir [(''main'', File [])]), (''tags'', Dir [])]),
                (''HEAD'', File ''refs/heads/main'')])]"

text \<open>The digits of \<^verbatim>\<open>hex.EncodeToString\<close>.\<close>

definition hexChars :: "char set" where
  "hexChars = set ''0123456789abcdef''"

text \<open>A fresh repository beside an empty file and a file of five bytes.\<close>

definition workRepo :: node where
  "workRepo =
     Dir [(''.gat'',
           Dir [(''objects'', Dir []), (''temp'', Dir []),
                (''refs'', Dir [(''heads'', Dir [(''main'', File [])]), (''tags'', Dir [])]),
                (''HEAD'', File ''refs/heads/main'')]),
          (''empty.txt'', File []),
          (''a.txt'', File ''hello'')]"

text \<open>
  The bytes that \<^verbatim>\<open>createBlob\<close> hashes and compresses: what the read loop finds in the
  source once the temporary file exists; \<open>None\<close> when the function has returned before.
\<close>

definition blobInput :: "lib \<Rightarrow> string \<Rightarrow> world \<Rightarrow> string option" where
  "blobInput L path w =
     (case osOpen path (root w) of
        None \<Rightarrow> None
      | Some _ \<Rightarrow>
          (case osCreate (BASEDIR @ ''/temp/'' @ fst (randomString L 6 w)) (root w) of
             None \<Rightarrow> None
           | Some r2 \<Rightarrow> (case osOpen path r2 of Some (File content) \<Rightarrow> Some content | _ \<Rightarrow> None)))"

text \<open>An instance whose digest is the input itself, of any length.\<close>

definition badLib :: lib where
  "badLib = testLib\<lparr>sha1Sum := (\<lambda>b. b)\<rparr>"

text \<open>
  A fresh repository in which a stray regular file stands at \<^verbatim>\<open>.gat/objects/61\<close>, where
  the folder of every object whose hash starts with \<^verbatim>\<open>61\<close> belongs.
\<close>

definition strayRepo :: node where
  "strayRepo =
     Dir [(''.gat'',
           Dir [(''objects'', Dir [(''61'', File ''stray'')]), (''temp'', Dir []),
                (''refs'', Dir [(''heads'', Dir [(''main'', File [])]), (''tags'', Dir [])]),
                (''HEAD'', File ''refs/heads/main'')])]"

text \<open>
  A history: commits with their hashes, each readable from the object store under its
  hash, each naming the next as its parent, the last without a parent.
\<close>

fun isChain :: "lib \<Rightarrow> world \<Rightarrow> (string \<times> Commit) list \<Rightarrow> bool" where
  "isChain L w [] = False"
| "isChain L w [(h, c)] = (fst (readCommit L h w) = Ok c \<and> ParentCommit c = [])"
| "isChain L w ((h, c) # (h', c') # rest) =
     (fst (readCommit L h w) = Ok c \<and> ParentCommit c = h' \<and> isChain L w ((h', c') # rest))"

text \<open>Two commits made one after the other in a fresh repository.\<close>

definition commitA :: "string result \<times> world" where
  "commitA = createCommit testLib ''1111'' [] ''first'' (mkWorld freshRepo)"

definition hashA :: string where
  "hashA = ''313131310a0a6669727374616161616161616161''"

definition commitB :: "string result \<times> world" where
  "commitB = createCommit testLib ''2222'' hashA ''second'' (snd commitA)"

definition hashB :: string where
  "hashB = ''323232320a333133313331333130613061363636''"

text \<open>
  A fresh repository after the command \<^verbatim>\<open>branch feature\<close>: both branch files are empty and
  \<^verbatim>\<open>HEAD\<close> names \<^verbatim>\<open>feature\<close>. The second world is the same with \<^verbatim>\<open>HEAD\<close> naming \<^verbatim>\<open>main\<close>.
\<close>

definition onFeature :: world where
  "onFeature = snd (createAndSwitchBranch ''feature'' (snd (prepareDirs (mkWorld (Dir [])))))"

definition leftOnMain :: world where
  "leftOnMain =
     \<lparr>root =
        Dir [(''.gat'',
              Dir [(''objects'', Dir []), (''temp'', Dir []),
                   (''refs'',
                    Dir [(''heads'', Dir [(''main'', File []), (''feature'', File [])]),
                         (''tags'', Dir [])]),
                   (''HEAD'', File ''refs/heads/main'')])],
      rngPos = 0, clock = 0, DEBUG = False,
      stdout = [Text (''Created branch '' @ quoted ''feature'' @ '' and switched to it.'' @ [NL])]\<rparr>"

text \<open>
  A repository as \<^verbatim>\<open>prepareDirs\<close> and \<^verbatim>\<open>createBlob\<close> leave it: \<^verbatim>\<open>.gat/temp\<close> is a directory of
  files, \<^verbatim>\<open>.gat/objects\<close> a directory of directories of files.
\<close>

definition filesOnly :: "(string \<times> node) list \<Rightarrow> bool" where
  "filesOnly es = list_all (\<lambda>(n, m). \<not> isDir m) es"

definition wfStore :: "node \<Rightarrow> bool" where
  "wfStore r =
     ((case fsLookup r [''.gat'', ''temp''] of Some (Dir ts) \<Rightarrow> filesOnly ts | _ \<Rightarrow> False) \<and>
      (case fsLookup r [''.gat'', ''objects''] of
         Some (Dir os) \<Rightarrow>
           list_all (\<lambda>(a, m). case m of Dir fs \<Rightarrow> filesOnly fs | File _ \<Rightarrow> False) os
       | _ \<Rightarrow> False))"

text \<open>
  An instance whose codec is not the identity: the writer puts one byte before the
  input, the reader refuses a stream that does not start with it.
\<close>

definition headerLib :: lib where
  "headerLib =
     testLib\<lparr>lzwEncode := (\<lambda>b. CHR ''Z'' # b),
             lzwDecode := (\<lambda>b. case b of [] \<Rightarrow> ([], False)
                                 | x # xs \<Rightarrow> if x = CHR ''Z'' then (xs, True) else ([], False))\<rparr>"

text \<open>
  A fresh repository whose \<^verbatim>\<open>.gat/temp\<close> holds a file under the name that the next
  \<^verbatim>\<open>randomString\<close> of \<open>testLib\<close> draws.
\<close>

definition collideRepo :: node where
  "collideRepo =
     Dir [(''.gat'',
           Dir [(''objects'', Dir []), (''temp'', Dir [(''abcdef'', File ''hello'')]),
                (''refs'', Dir [(''heads'', Dir [(''main'', File [])]), (''tags'', Dir [])]),
                (''HEAD'', File ''refs/heads/main'')])]"

section \<open>Properties\<close>

subsection \<open>Paths\<close>

lemma validNameD:
  "validName c \<Longrightarrow> c \<noteq> []" "validName c \<Longrightarrow> c \<noteq> ''.''"
  "validName c \<Longrightarrow> c \<noteq> ''..''" "validName c \<Longrightarrow> CHR ''/'' \<notin> set c"
  by (simp_all add: validName_def)

lemma splitOn_nonempty [simp]: "splitOn c s \<noteq> []"
  by (induction s) (auto split: list.splits)

lemma splitOn_append: "splitOn c (a @ c # b) = splitOn c a @ splitOn c b"
  by (induction a) (auto split: list.splits)

lemma splitOn_none: "c \<notin> set a \<Longrightarrow> splitOn c a = [a]"
  by (induction a) auto

lemma splitOn_free: "x \<in> set (splitOn c s) \<Longrightarrow> c \<notin> set x"
  by (induction s arbitrary: x) (auto split: list.splits if_splits)

lemma intercalate_Cons:
  "intercalate sep (x # xs) = (if xs = [] then x else x @ sep @ intercalate sep xs)"
  by (cases xs) auto

lemma splitOn_intercalate:
  "cs \<noteq> [] \<Longrightarrow> \<forall>x\<in>set cs. c \<notin> set x \<Longrightarrow> splitOn c (intercalate [c] cs) = cs"
proof (induction cs)
  case (Cons x cs)
  show ?case
  proof (cases "cs = []")
    case True
    then show ?thesis using Cons.prems by (simp add: splitOn_none)
  next
    case False
    then show ?thesis
      using Cons splitOn_append[of c x "intercalate [c] cs"]
      by (simp add: intercalate_Cons splitOn_none)
  qed
qed simp

lemma walk_append: "walk st (xs @ ys) = walk (walk st xs) ys"
  by (induction xs arbitrary: st) (auto split: list.splits)

lemma walk_valid: "\<forall>n\<in>set ns. validName n \<Longrightarrow> walk acc ns = rev ns @ acc"
  by (induction ns arbitrary: acc) (auto simp: validName_def)

lemma walk_dotdots: "walk (replicate j ''..'') (replicate k ''..'') = replicate (k + j) ''..''"
proof (induction k arbitrary: j)
  case (Suc k)
  have "walk (replicate j ''..'') (''..'' # replicate k ''..'') = walk (replicate (Suc j) ''..'') (replicate k ''..'')"
    by (cases j) auto
  then show ?case using Suc[of "Suc j"] by simp
qed simp

lemma walk_shape:
  "\<forall>c\<in>set comps. CHR ''/'' \<notin> set c \<Longrightarrow> \<forall>n\<in>set ns0. validName n \<Longrightarrow>
   \<exists>k ns. (\<forall>n\<in>set ns. validName n) \<and> walk (rev ns0 @ replicate k0 ''..'') comps = rev ns @ replicate k ''..''"
proof (induction comps arbitrary: ns0 k0)
  case Nil
  then show ?case by (intro exI[of _ k0] exI[of _ ns0]) simp
next
  case (Cons c comps)
  have free: "\<forall>c\<in>set comps. CHR ''/'' \<notin> set c" using Cons.prems(1) by simp
  have step: "\<exists>ns1 k1. (\<forall>n\<in>set ns1. validName n) \<and>
      walk (rev ns0 @ replicate k0 ''..'') (c # comps) = walk (rev ns1 @ replicate k1 ''..'') comps"
  proof -
    consider "c = [] \<or> c = ''.''" | "c = ''..''" "ns0 = []" | "c = ''..''" "ns0 \<noteq> []" | "validName c"
      using Cons.prems(1) by (auto simp: validName_def)
    then show ?thesis
    proof cases
      case 1
      then have "walk (rev ns0 @ replicate k0 ''..'') (c # comps) = walk (rev ns0 @ replicate k0 ''..'') comps"
        by auto
      then show ?thesis using Cons.prems(2) by blast
    next
      case 2
      have "walk (replicate k0 ''..'') (''..'' # comps) = walk (rev [] @ replicate (Suc k0) ''..'') comps"
        by (cases k0) auto
      then show ?thesis using 2 by (intro exI[of _ "[]"] exI[of _ "Suc k0"]) simp
    next
      case 3
      then obtain ms m where ns0: "ns0 = ms @ [m]" by (metis rev_exhaust)
      have "m \<noteq> ''..''" using Cons.prems(2) ns0 by (auto simp: validName_def)
      then have "walk (rev ns0 @ replicate k0 ''..'') (c # comps) = walk (rev ms @ replicate k0 ''..'') comps"
        using 3 ns0 by simp
      moreover have "\<forall>n\<in>set ms. validName n" using Cons.prems(2) ns0 by simp
      ultimately show ?thesis by blast
    next
      case 4
      then have "walk (rev ns0 @ replicate k0 ''..'') (c # comps) = walk (rev (ns0 @ [c]) @ replicate k0 ''..'') comps"
        by (auto simp: validName_def)
      moreover have "\<forall>n\<in>set (ns0 @ [c]). validName n" using Cons.prems(2) 4 by simp
      ultimately show ?thesis by blast
    qed
  qed
  then obtain ns1 k1 where v: "\<forall>n\<in>set ns1. validName n"
    and w: "walk (rev ns0 @ replicate k0 ''..'') (c # comps) = walk (rev ns1 @ replicate k1 ''..'') comps"
    by blast
  from Cons.IH[OF free v, of k1] w show ?case by simp
qed

lemma walk_split_shape:
  "\<exists>k ns. (\<forall>n\<in>set ns. validName n) \<and> rev (walk [] (splitOn (CHR ''/'') s)) = replicate k ''..'' @ ns"
proof -
  have "\<forall>c\<in>set (splitOn (CHR ''/'') s). CHR ''/'' \<notin> set c" using splitOn_free by blast
  from walk_shape[OF this, of "[]" 0] obtain k ns where
    "\<forall>n\<in>set ns. validName n" "walk [] (splitOn (CHR ''/'') s) = rev ns @ replicate k ''..''" by auto
  then show ?thesis by (intro exI[of _ k] exI[of _ ns]) simp
qed

lemma lexPath_valid: "lexPath s = Some p \<Longrightarrow> \<forall>n\<in>set p. validName n"
proof -
  assume a: "lexPath s = Some p"
  from walk_split_shape[of s] obtain k ns where
    h: "\<forall>n\<in>set ns. validName n" "rev (walk [] (splitOn (CHR ''/'') s)) = replicate k ''..'' @ ns" by auto
  from a h have "k = 0" by (cases k) (auto simp: lexPath_def Let_def split: if_splits)
  with a h show ?thesis by (auto simp: lexPath_def Let_def split: if_splits)
qed

lemma rooted_intercalate:
  "st \<noteq> [] \<Longrightarrow> \<forall>x\<in>set st. x \<noteq> [] \<and> CHR ''/'' \<notin> set x \<Longrightarrow>
   \<not> rooted (intercalate ''/'' st) \<and> intercalate ''/'' st \<noteq> []"
proof (cases st)
  case (Cons x xs)
  assume "\<forall>x\<in>set st. x \<noteq> [] \<and> CHR ''/'' \<notin> set x"
  then obtain a as where "x = a # as" "a \<noteq> CHR ''/''" using Cons by (cases x) auto
  then show ?thesis using Cons by (simp add: intercalate_Cons rooted_def)
qed simp

lemma lexPath_normal:
  assumes "st \<noteq> []" "\<forall>x\<in>set st. x \<noteq> [] \<and> CHR ''/'' \<notin> set x" "walk [] st = rev st"
  shows "lexPath (intercalate ''/'' st) = (if ''..'' \<in> set st then None else Some st)"
proof -
  have sp: "splitOn (CHR ''/'') (intercalate ''/'' st) = st"
    using splitOn_intercalate[OF assms(1), of "CHR ''/''"] assms(2) by auto
  show ?thesis
    unfolding lexPath_def Let_def sp assms(3)
    using rooted_intercalate[OF assms(1,2)] by simp
qed

lemma lexPath_Clean: "s \<noteq> [] \<Longrightarrow> lexPath (Clean s) = lexPath s"
proof (cases "rooted s")
  case True
  then show ?thesis by (simp add: lexPath_def Clean_def Let_def rooted_def)
next
  case False
  assume ne: "s \<noteq> []"
  from walk_split_shape[of s] obtain k ns where
    h: "\<forall>n\<in>set ns. validName n" "rev (walk [] (splitOn (CHR ''/'') s)) = replicate k ''..'' @ ns" by auto
  define st where "st = replicate k ''..'' @ ns"
  have st: "rev (walk [] (splitOn (CHR ''/'') s)) = st" using h(2) st_def by simp
  have os: "lexPath s = (if ''..'' \<in> set st then None else Some st)"
    unfolding lexPath_def Let_def st using False ne by simp
  show ?thesis
  proof (cases "st = []")
    case True
    have "Clean s = ''.''" unfolding Clean_def Let_def st using False True by simp
    moreover have "lexPath ''.'' = Some []" by (simp add: lexPath_def rooted_def)
    ultimately show ?thesis using os True by simp
  next
    case nonempty: False
    have "\<forall>x\<in>set (replicate k ''..''). x \<noteq> [] \<and> CHR ''/'' \<notin> set x" by simp
    then have free: "\<forall>x\<in>set st. x \<noteq> [] \<and> CHR ''/'' \<notin> set x"
      using h(1) validNameD(1,4) unfolding st_def by auto
    have w: "walk [] st = rev st"
      unfolding st_def using walk_dotdots[of 0 k] walk_valid[OF h(1)] by (simp add: walk_append)
    have cl: "Clean s = intercalate ''/'' st" unfolding Clean_def Let_def st using False nonempty by simp
    show ?thesis unfolding cl os by (rule lexPath_normal[OF nonempty free w])
  qed
qed

lemma lexPath_child:
  assumes "lexPath path = Some p" "validName name"
  shows "lexPath (path @ ''/'' @ name) = Some (p @ [name])"
proof -
  from assms(1) have ne: "path \<noteq> []" "\<not> rooted path" by (auto simp: lexPath_def split: if_splits)
  then have nr: "\<not> rooted (path @ ''/'' @ name)" by (cases path) (auto simp: rooted_def)
  have sp: "splitOn (CHR ''/'') (path @ ''/'' @ name) = splitOn (CHR ''/'') path @ [name]"
    using splitOn_append[of "CHR ''/''" path name] assms(2) by (simp add: splitOn_none validName_def)
  have "walk [] (splitOn (CHR ''/'') path @ [name]) = name # walk [] (splitOn (CHR ''/'') path)"
    using assms(2) by (simp add: walk_append validName_def)
  then show ?thesis using assms nr ne sp by (auto simp: lexPath_def Let_def validName_def split: if_splits)
qed

lemma lexPath_Join2:
  assumes "lexPath path = Some p" "validName name"
  shows "lexPath (Join [path, name]) = Some (p @ [name])"
proof -
  from assms have ne: "path \<noteq> []" "name \<noteq> []" by (auto simp: lexPath_def validName_def split: if_splits)
  then have "Join [path, name] = Clean (path @ ''/'' @ name)" by (simp add: Join_def)
  then show ?thesis using lexPath_Clean[of "path @ ''/'' @ name"] lexPath_child[OF assms] by simp
qed

lemma lexPath_Clean_string:
  "lexPath s = Some p \<Longrightarrow> p \<noteq> [] \<Longrightarrow> Clean s = intercalate ''/'' p"
  by (auto simp: lexPath_def Clean_def Let_def split: if_splits)

subsection \<open>The file system\<close>

lemma snoc_update: "map_of es c = None \<Longrightarrow> es @ [(c, v)] = AList.update c v es"
  by (induction es) (auto split: if_splits)

lemma map_of_update: "map_of (AList.update c v es) d = (if d = c then Some v else map_of es d)"
  by (simp add: update_conv')

lemma map_of_delete_if: "map_of (AList.delete c es) d = (if d = c then None else map_of es d)"
  by (simp add: delete_conv')

lemma fsPut_Dir [simp]:
  "fsPut (c # cs) v (Dir es) =
     (case map_of es c of
        Some m \<Rightarrow> Dir (AList.update c (fsPut cs v m) es)
      | None \<Rightarrow> if cs = [] then Dir (AList.update c v es) else Dir es)"
  by (simp add: snoc_update split: option.splits)

lemma fsPut_File [simp]: "fsPut (c # cs) v (File b) = File b"
  by simp

declare fsPut.simps(2) [simp del]

lemma fsMkdirAll_Dir [simp]:
  "fsMkdirAll (c # cs) (Dir es) =
     (case map_of es c of
        Some m \<Rightarrow> map_option (\<lambda>m'. Dir (AList.update c m' es)) (fsMkdirAll cs m)
      | None \<Rightarrow> map_option (\<lambda>m'. Dir (AList.update c m' es)) (fsMkdirAll cs (Dir [])))"
  by (simp add: snoc_update split: option.splits)

lemma fsMkdirAll_File [simp]: "fsMkdirAll p (File b) = None"
  by (cases p) simp_all

declare fsMkdirAll.simps(2) [simp del]

lemma parentIsDir_single: "parentIsDir r [c] = isDir r"
  by (cases r) (simp_all add: parentIsDir_def isDir_def)

lemma parentIsDir_Cons:
  "cs \<noteq> [] \<Longrightarrow> parentIsDir r (c # cs) =
     (case r of File _ \<Rightarrow> False
      | Dir es \<Rightarrow> (case map_of es c of None \<Rightarrow> False | Some m \<Rightarrow> parentIsDir m cs))"
  by (cases r) (auto simp: parentIsDir_def split: option.splits node.splits)

lemma lookup_put_same:
  "parentIsDir r t \<or> t = [] \<Longrightarrow> fsLookup (fsPut t v r) (t @ s) = fsLookup v s"
proof (induction t arbitrary: r)
  case (Cons c cs)
  then have p: "parentIsDir r (c # cs)" by simp
  show ?case
  proof (cases "cs = []")
    case True
    with p obtain es where "r = Dir es" by (cases r) (auto simp: parentIsDir_single isDir_def)
    then show ?thesis using True by (simp add: map_of_update split: option.splits)
  next
    case False
    with p obtain es m where r: "r = Dir es" "map_of es c = Some m" "parentIsDir m cs"
      by (cases r) (auto simp: parentIsDir_Cons split: option.splits)
    then show ?thesis using Cons.IH[of m] by (simp add: map_of_update)
  qed
qed simp

lemma lookup_put_other:
  "\<not> prefix t q \<Longrightarrow> \<not> prefix q t \<Longrightarrow> fsLookup (fsPut t v r) q = fsLookup r q"
proof (induction t arbitrary: q r)
  case (Cons c cs)
  then obtain d ds where q: "q = d # ds" by (cases q) auto
  show ?case
  proof (cases r)
    case (Dir es)
    show ?thesis
    proof (cases "c = d")
      case True
      then have "\<not> prefix cs ds" "\<not> prefix ds cs" "cs \<noteq> []" using Cons.prems q by auto
      then show ?thesis using Cons.IH[of ds] Dir q True
        by (auto simp: map_of_update split: option.splits)
    next
      case False
      then show ?thesis using Dir q by (auto simp: map_of_update split: option.splits)
    qed
  qed (simp add: q)
qed simp

lemma lookup_put_above:
  "strict_prefix q t \<Longrightarrow> map_option isDir (fsLookup (fsPut t v r) q) = map_option isDir (fsLookup r q)"
proof (induction t arbitrary: q r)
  case (Cons c cs)
  show ?case
  proof (cases q)
    case Nil
    then show ?thesis by (cases r) (auto simp: isDir_def split: option.splits)
  next
    case (Cons d ds)
    then have "d = c" "strict_prefix ds cs" using Cons.prems by auto
    then show ?thesis using Cons.IH[of ds] Cons
      by (cases r) (auto simp: map_of_update split: option.splits)
  qed
qed simp

lemma lookup_remove_same: "t \<noteq> [] \<Longrightarrow> fsLookup (fsRemove t r) (t @ s) = None"
proof (induction t arbitrary: r)
  case (Cons c cs)
  show ?case
  proof (cases "cs = []")
    case True
    then show ?thesis by (cases r) (simp_all add: map_of_delete_if)
  next
    case False
    then show ?thesis using Cons.IH
      by (cases r) (auto simp: map_of_update split: option.splits)
  qed
qed simp

lemma lookup_remove_other:
  "\<not> prefix t q \<Longrightarrow> \<not> prefix q t \<Longrightarrow> fsLookup (fsRemove t r) q = fsLookup r q"
proof (induction t arbitrary: q r)
  case (Cons c cs)
  then obtain d ds where q: "q = d # ds" by (cases q) auto
  show ?case
  proof (cases r)
    case (Dir es)
    show ?thesis
    proof (cases "c = d")
      case True
      then have "\<not> prefix cs ds" "\<not> prefix ds cs" "cs \<noteq> []" using Cons.prems q by auto
      then show ?thesis using Cons.IH[of ds] Dir q True
        by (auto simp: map_of_update split: option.splits)
    next
      case False
      then show ?thesis using Dir q by (auto simp: map_of_update map_of_delete_if split: option.splits)
    qed
  qed (simp add: q)
qed simp

lemma lookup_remove_above:
  "strict_prefix q t \<Longrightarrow> map_option isDir (fsLookup (fsRemove t r) q) = map_option isDir (fsLookup r q)"
proof (induction t arbitrary: q r)
  case (Cons c cs)
  show ?case
  proof (cases q)
    case Nil
    then show ?thesis by (cases r) (auto simp: isDir_def split: option.splits)
  next
    case (Cons d ds)
    then have "d = c" "strict_prefix ds cs" using Cons.prems by auto
    then show ?thesis using Cons.IH[of ds] Cons
      by (cases r) (auto simp: map_of_update split: option.splits)
  qed
qed simp

lemma mkdirAll_keeps_file:
  "fsMkdirAll d r = Some r' \<Longrightarrow> fsLookup r q = Some (File b) \<Longrightarrow> fsLookup r' q = Some (File b)"
proof (induction d arbitrary: r r' q)
  case Nil
  then show ?case by (cases r) auto
next
  case (Cons c cs)
  then obtain es where r: "r = Dir es" by (cases r) auto
  from Cons.prems(2) r obtain e qs where q: "q = e # qs" by (cases q) auto
  show ?case
  proof (cases "map_of es c")
    case None
    then obtain m' where "fsMkdirAll cs (Dir []) = Some m'" "r' = Dir (AList.update c m' es)"
      using Cons.prems(1) r by auto
    moreover have "e \<noteq> c" using None Cons.prems(2) r q by (auto split: option.splits)
    ultimately show ?thesis using Cons.prems(2) r q by (simp add: map_of_update)
  next
    case (Some m)
    then obtain m' where m': "fsMkdirAll cs m = Some m'" "r' = Dir (AList.update c m' es)"
      using Cons.prems(1) r by auto
    show ?thesis
    proof (cases "e = c")
      case True
      then have "fsLookup m qs = Some (File b)" using Cons.prems(2) r q Some by simp
      from Cons.IH[OF m'(1) this] show ?thesis using m' q True by (simp add: map_of_update)
    next
      case False
      then show ?thesis using Cons.prems(2) r q m' by (simp add: map_of_update)
    qed
  qed
qed

lemma mkdirAll_isDir:
  "fsMkdirAll d r = Some r' \<Longrightarrow> prefix q d \<Longrightarrow> \<exists>es. fsLookup r' q = Some (Dir es)"
proof (induction d arbitrary: r r' q)
  case Nil
  then show ?case by (cases r) auto
next
  case (Cons c cs)
  then obtain es where r: "r = Dir es" by (cases r) auto
  show ?case
  proof (cases q)
    case Nil
    then show ?thesis using Cons.prems(1) r by (auto split: option.splits)
  next
    case (Cons e qs)
    then have e: "e = c" "prefix qs cs" using Cons.prems(2) by auto
    show ?thesis
    proof (cases "map_of es c")
      case None
      then obtain m' where m': "fsMkdirAll cs (Dir []) = Some m'" "r' = Dir (AList.update c m' es)"
        using Cons.prems(1) r by auto
      from Cons.IH[OF m'(1) e(2)] show ?thesis using m' Cons e by (simp add: map_of_update)
    next
      case (Some m)
      then obtain m' where m': "fsMkdirAll cs m = Some m'" "r' = Dir (AList.update c m' es)"
        using Cons.prems(1) r by auto
      from Cons.IH[OF m'(1) e(2)] show ?thesis using m' Cons e by (simp add: map_of_update)
    qed
  qed
qed

lemma lookup_append:
  "fsLookup r (p @ s) = (case fsLookup r p of None \<Rightarrow> None | Some n \<Rightarrow> fsLookup n s)"
  by (induction p arbitrary: r) (auto split: node.splits option.splits)

lemma put_keeps_file:
  assumes "parentIsDir r t" "\<forall>es. fsLookup r t \<noteq> Some (Dir es)"
    and "fsLookup r p = Some (File b)" "p \<noteq> t"
  shows "fsLookup (fsPut t v r) p = Some (File b)"
proof -
  consider "prefix t p" | "strict_prefix p t" | "\<not> prefix t p" "\<not> prefix p t"
    by (auto simp: strict_prefix_def)
  then show ?thesis
  proof cases
    case 1
    then obtain s where s: "p = t @ s" "s \<noteq> []" using assms(4) by (auto simp: prefix_def)
    then have "\<exists>es. fsLookup r t = Some (Dir es)"
      using assms(3) lookup_append[of r t s]
      by (cases s; cases "fsLookup r t") (auto split: node.splits)
    then show ?thesis using assms(2) by simp
  next
    case 2
    then obtain s where s: "butlast t = p @ s"
      by (auto elim!: strict_prefixE' simp: butlast_append)
    then have "fsLookup r (butlast t) = (if s = [] then Some (File b) else None)"
      using assms(3) lookup_append[of r p s] by (cases s) auto
    then show ?thesis using assms(1) by (auto simp: parentIsDir_def split: if_splits)
  next
    case 3
    then show ?thesis using assms(3) by (simp add: lookup_put_other)
  qed
qed

lemma isDir_kind:
  "map_option isDir x = map_option isDir y \<Longrightarrow>
   (\<exists>es. x = Some (Dir es)) = (\<exists>es. y = Some (Dir es))"
  by (cases x; cases y) (auto simp: isDir_def split: node.splits)

lemma parentIsDir_iff: "parentIsDir r t = (t \<noteq> [] \<and> (\<exists>es. fsLookup r (butlast t) = Some (Dir es)))"
  by (auto simp: parentIsDir_def split: option.splits node.splits)

lemma parentIsDir_put: "parentIsDir r t \<Longrightarrow> parentIsDir (fsPut t v r) t"
proof -
  assume a: "parentIsDir r t"
  then have "t \<noteq> []" by (simp add: parentIsDir_def)
  then have "strict_prefix (butlast t) t"
    by (metis append_butlast_last_id strict_prefixI')
  from isDir_kind[OF lookup_put_above[OF this, of v r]] a show ?thesis
    by (simp add: parentIsDir_iff)
qed


lemma put_put: "fsPut p v2 (fsPut p v1 r) = fsPut p v2 r"
proof (induction p arbitrary: r)
  case (Cons c cs)
  show ?case
  proof (cases r)
    case (Dir es)
    then show ?thesis using Cons.IH
      by (auto simp: map_of_update split: option.splits)
  qed simp
qed simp

lemma put_id: "fsLookup r p = Some v \<Longrightarrow> fsPut p v r = r"
proof (induction p arbitrary: r)
  case (Cons c cs)
  then show ?case
    by (cases r) (auto simp: update_triv split: option.splits)
qed simp

lemma put_child:
  "fsLookup r p = Some (Dir es) \<Longrightarrow> fsPut (p @ [n]) v r = fsPut p (Dir (AList.update n v es)) r"
proof (induction p arbitrary: r)
  case Nil
  then show ?case by (auto simp: snoc_update[symmetric] split: option.splits)
next
  case (Cons c cs)
  then show ?case by (cases r) (auto split: option.splits)
qed

lemma remove_child:
  "fsLookup r p = Some (Dir es) \<Longrightarrow> fsRemove (p @ [n]) r = fsPut p (Dir (AList.delete n es)) r"
proof (induction p arbitrary: r)
  case Nil
  then show ?case by simp
next
  case (Cons c cs)
  then show ?case by (cases r) (auto split: option.splits)
qed

lemma mkdirAll_existing: "fsLookup r d = Some (Dir es) \<Longrightarrow> fsMkdirAll d r = Some r"
proof (induction d arbitrary: r)
  case (Cons c cs)
  then show ?case by (cases r) (auto simp: update_triv split: option.splits)
qed simp

lemma mkdirAll_child:
  "fsLookup r p = Some (Dir es) \<Longrightarrow>
   fsMkdirAll (p @ [n]) r =
     (case map_of es n of
        None \<Rightarrow> Some (fsPut (p @ [n]) (Dir []) r)
      | Some (Dir d) \<Rightarrow> Some r
      | Some (File b) \<Rightarrow> None)"
proof (induction p arbitrary: r)
  case Nil
  then show ?case by (auto simp: update_triv split: option.splits node.splits)
next
  case (Cons c cs)
  then show ?case
    by (cases r) (auto simp: update_triv split: option.splits node.splits)
qed

lemma delete_filter: "AList.delete n es = filter (\<lambda>(k, v). k \<noteq> n) es"
  by (induction es) auto

subsection \<open>Resolving a path in the file system\<close>

lemma isDirAt_iff: "isDirAt r p = (\<exists>es. fsLookup r p = Some (Dir es))"
  by (auto simp: isDirAt_def split: option.splits node.splits)

lemma isDirAt_prefix: "isDirAt r (p @ q) \<Longrightarrow> isDirAt r p"
proof -
  assume "isDirAt r (p @ q)"
  then obtain es where "fsLookup r (p @ q) = Some (Dir es)" by (auto simp: isDirAt_iff)
  then show ?thesis
    by (cases q; cases "fsLookup r p")
       (auto simp: lookup_append isDirAt_iff split: node.splits)
qed


lemma parentIsDir_isDirAt: "parentIsDir r p = (p \<noteq> [] \<and> isDirAt r (butlast p))"
  by (simp add: parentIsDir_iff isDirAt_iff)

lemma walkFs_append:
  "walkFs r cur (xs @ ys) =
     (case walkFs r cur xs of None \<Rightarrow> None | Some c \<Rightarrow> walkFs r c ys)"
  by (induction xs arbitrary: cur) auto

lemma walkFs_names:
  "\<forall>n\<in>set ns. validName n \<Longrightarrow>
   walkFs r cur ns = (if ns = [] \<or> isDirAt r (cur @ butlast ns) then Some (cur @ ns) else None)"
proof (induction ns arbitrary: cur)
  case (Cons n ns)
  then have v: "n \<noteq> []" "n \<noteq> ''.''" "n \<noteq> ''..''" by (simp_all add: validNameD)
  show ?case
  proof (cases "ns = []")
    case True
    then show ?thesis using v by simp
  next
    case False
    then have "isDirAt r (cur @ n # butlast ns) \<Longrightarrow> isDirAt r cur"
      using isDirAt_prefix[of r cur "n # butlast ns"] by simp
    then show ?thesis using Cons v False by auto
  qed
qed simp



lemma walkFs_walk:
  "walkFs r cur comps = Some p \<Longrightarrow> \<forall>n\<in>set cur. n \<noteq> ''..'' \<Longrightarrow>
   walk (rev cur) comps = rev p \<and> (\<forall>n\<in>set p. n \<noteq> ''..'')"
proof (induction comps arbitrary: cur)
  case (Cons c comps)
  from Cons.prems(1) have d: "isDirAt r cur" by (auto split: if_splits)
  consider "c = [] \<or> c = ''.''" | "c = ''..''" "cur \<noteq> []" | "c \<noteq> []" "c \<noteq> ''.''" "c \<noteq> ''..''"
    using Cons.prems(1) by (auto split: if_splits)
  then show ?case
  proof cases
    case 1
    then have "walkFs r cur comps = Some p" using Cons.prems(1) d by auto
    from Cons.IH[OF this Cons.prems(2)] 1 show ?thesis by auto
  next
    case 2
    then have w: "walkFs r (butlast cur) comps = Some p" using Cons.prems(1) d by auto
    have b: "\<forall>n\<in>set (butlast cur). n \<noteq> ''..''" using Cons.prems(2) by (auto dest: in_set_butlastD)
    have "cur = butlast cur @ [last cur]" using 2(2) by simp
    then have rc: "rev cur = last cur # rev (butlast cur)" by (metis rev.simps(2) rev_rev_ident rev_append rev_singleton_conv append_Cons append_Nil)
    have lc: "last cur \<noteq> ''..''" using 2(2) Cons.prems(2) by simp
    have "walk (rev cur) (c # comps) = walk (rev (butlast cur)) comps"
      unfolding rc using 2(1) lc by simp
    with Cons.IH[OF w b] show ?thesis by simp
  next
    case 3
    then have w: "walkFs r (cur @ [c]) comps = Some p" using Cons.prems(1) d by auto
    have "\<forall>n\<in>set (cur @ [c]). n \<noteq> ''..''" using Cons.prems(2) 3 by simp
    from Cons.IH[OF w this] show ?thesis using 3 by simp
  qed
qed simp

lemma osPath_lexPath: "osPath r s = Some p \<Longrightarrow> lexPath s = Some p"
proof -
  assume a: "osPath r s = Some p"
  then have w: "walkFs r [] (splitOn (CHR ''/'') s) = Some p" and ne: "s \<noteq> []" "\<not> rooted s"
    by (auto simp: osPath_def split: if_splits)
  from walkFs_walk[OF w] have "walk [] (splitOn (CHR ''/'') s) = rev p" "''..'' \<notin> set p" by auto
  then show ?thesis using ne by (simp add: lexPath_def Let_def)
qed

lemma osPath_valid: "osPath r s = Some p \<Longrightarrow> \<forall>n\<in>set p. validName n"
  using osPath_lexPath lexPath_valid by blast

text \<open>A path made of names only resolves to those names when the directories are there.\<close>

lemma osPath_names:
  assumes "ns \<noteq> []" "\<forall>n\<in>set ns. validName n"
  shows "osPath r (intercalate ''/'' ns) = (if isDirAt r (butlast ns) then Some ns else None)"
proof -
  have free: "\<forall>x\<in>set ns. x \<noteq> [] \<and> CHR ''/'' \<notin> set x" using assms(2) validNameD(1,4) by auto
  then have sp: "splitOn (CHR ''/'') (intercalate ''/'' ns) = ns"
    using splitOn_intercalate[OF assms(1), of "CHR ''/''"] by auto
  show ?thesis
    unfolding osPath_def sp using rooted_intercalate[OF assms(1) free] walkFs_names[OF assms(2), of r "[]"] assms(1)
    by simp
qed

lemma osPath_Clean_names:
  assumes "lexPath s = Some p" "p \<noteq> []"
  shows "osPath r (Clean s) = (if isDirAt r (butlast p) then Some p else None)"
  using osPath_names[OF assms(2) lexPath_valid[OF assms(1)]] lexPath_Clean_string[OF assms]
  by simp

lemma osPath_child:
  assumes "osPath r path = Some p" "isDirAt r p" "validName name"
  shows "osPath r (path @ ''/'' @ name) = Some (p @ [name])"
proof -
  from assms(1) have ne: "path \<noteq> []" "\<not> rooted path"
    and w: "walkFs r [] (splitOn (CHR ''/'') path) = Some p"
    by (auto simp: osPath_def split: if_splits)
  then have nr: "\<not> rooted (path @ ''/'' @ name)" by (cases path) (auto simp: rooted_def)
  have sp: "splitOn (CHR ''/'') (path @ ''/'' @ name) = splitOn (CHR ''/'') path @ [name]"
    using splitOn_append[of "CHR ''/''" path name] assms(3) by (simp add: splitOn_none validName_def)
  have "walkFs r p [name] = Some (p @ [name])"
    using assms(2,3) by (simp add: validNameD)
  then show ?thesis using w nr ne unfolding osPath_def sp by (simp add: walkFs_append)
qed

lemma osPath_Join2:
  assumes "osPath r path = Some p" "isDirAt r p" "validName name"
  shows "osPath r (Join [path, name]) = Some (p @ [name])"
proof -
  from assms have ne: "path \<noteq> []" "name \<noteq> []" by (auto simp: osPath_def validName_def split: if_splits)
  then have j: "Join [path, name] = Clean (path @ ''/'' @ name)" by (simp add: Join_def)
  have "lexPath (path @ ''/'' @ name) = Some (p @ [name])"
    by (rule lexPath_child[OF osPath_lexPath[OF assms(1)] assms(3)])
  from osPath_Clean_names[OF this, of r] show ?thesis unfolding j using assms(2) by simp
qed

text \<open>Resolution looks at the directories only.\<close>

lemma walkFs_skeleton:
  "(\<And>q. isDirAt r' q = isDirAt r q) \<Longrightarrow> walkFs r' cur comps = walkFs r cur comps"
  by (induction comps arbitrary: cur) auto

lemma osPath_skeleton: "(\<And>q. isDirAt r' q = isDirAt r q) \<Longrightarrow> osPath r' s = osPath r s"
  using walkFs_skeleton[of r' r] by (simp add: osPath_def)

lemma walkFs_mono:
  "(\<And>q. isDirAt r q \<Longrightarrow> isDirAt r' q) \<Longrightarrow> walkFs r cur comps = Some p \<Longrightarrow>
   walkFs r' cur comps = Some p"
  by (induction comps arbitrary: cur) (auto split: if_splits)

lemma osPath_mono:
  "(\<And>q. isDirAt r q \<Longrightarrow> isDirAt r' q) \<Longrightarrow> osPath r s = Some p \<Longrightarrow> osPath r' s = Some p"
  using walkFs_mono[of r r'] by (auto simp: osPath_def split: if_splits)

text \<open>Writing or removing a file changes no directory, and so no resolution.\<close>

lemma isDirAt_put_file:
  assumes "parentIsDir r t" "\<not> isDirAt r t"
  shows "isDirAt (fsPut t (File x) r) q = isDirAt r q"
proof -
  consider "prefix t q" | "strict_prefix q t" | "\<not> prefix t q" "\<not> prefix q t"
    by (auto simp: strict_prefix_def)
  then show ?thesis
  proof cases
    case 1
    then obtain s where q: "q = t @ s" by (auto simp: prefix_def)
    have "\<not> isDirAt r (t @ s)" using assms(2) isDirAt_prefix by blast
    moreover have "\<not> isDirAt (fsPut t (File x) r) (t @ s)"
      using lookup_put_same[of r t "File x" s] assms(1) by (cases s) (simp_all add: isDirAt_iff)
    ultimately show ?thesis using q by simp
  next
    case 2
    from isDir_kind[OF lookup_put_above[OF this, of "File x" r]] show ?thesis
      by (simp add: isDirAt_iff)
  next
    case 3
    then show ?thesis by (simp add: isDirAt_def lookup_put_other)
  qed
qed

lemma isDirAt_remove_file:
  assumes "fsLookup r t = Some (File b)" "t \<noteq> []"
  shows "isDirAt (fsRemove t r) q = isDirAt r q"
proof -
  consider "prefix t q" | "strict_prefix q t" | "\<not> prefix t q" "\<not> prefix q t"
    by (auto simp: strict_prefix_def)
  then show ?thesis
  proof cases
    case 1
    then obtain s where q: "q = t @ s" by (auto simp: prefix_def)
    have "\<not> isDirAt r t" using assms(1) by (simp add: isDirAt_iff)
    then have "\<not> isDirAt r (t @ s)" using isDirAt_prefix by blast
    moreover have "\<not> isDirAt (fsRemove t r) (t @ s)"
      using lookup_remove_same[OF assms(2), of r s] by (simp add: isDirAt_iff)
    ultimately show ?thesis using q by simp
  next
    case 2
    from isDir_kind[OF lookup_remove_above[OF this, of r]] show ?thesis
      by (simp add: isDirAt_iff)
  next
    case 3
    then show ?thesis by (simp add: isDirAt_def lookup_remove_other)
  qed
qed

lemma osPath_put_file:
  "parentIsDir r t \<Longrightarrow> \<not> isDirAt r t \<Longrightarrow> osPath (fsPut t (File x) r) s = osPath r s"
  using osPath_skeleton[of "fsPut t (File x) r" r s] isDirAt_put_file[of r t x] by simp

lemma osPath_remove_file:
  "fsLookup r t = Some (File b) \<Longrightarrow> t \<noteq> [] \<Longrightarrow> osPath (fsRemove t r) s = osPath r s"
  using osPath_skeleton[of "fsRemove t r" r s] isDirAt_remove_file[of r t b] by simp

text \<open>\<^verbatim>\<open>os.MkdirAll\<close> on a path of names is \<open>fsMkdirAll\<close> on those names.\<close>

lemma mkdirAll_fresh: "fsMkdirAll q (Dir []) \<noteq> None"
  by (induction q) auto

lemma mkdirWalk_names:
  "\<forall>n\<in>set ns. validName n \<Longrightarrow> fsLookup r cur = Some (Dir es) \<Longrightarrow>
   mkdirWalk r cur ns =
     (case fsMkdirAll ns (Dir es) of Some m' \<Rightarrow> (True, fsPut cur m' r) | None \<Rightarrow> (False, r))"
proof (induction ns arbitrary: r cur es)
  case Nil
  then show ?case by (simp add: put_id)
next
  case (Cons n ns)
  then have v: "n \<noteq> []" "n \<noteq> ''.''" "n \<noteq> ''..''" and vs: "\<forall>n\<in>set ns. validName n"
    by (simp_all add: validNameD)
  have lk: "fsLookup r (cur @ [n]) = map_of es n"
    using Cons.prems(2) by (simp add: lookup_append split: option.splits)
  show ?case
  proof (cases "map_of es n")
    case None
    define r1 where "r1 = fsPut (cur @ [n]) (Dir []) r"
    have par: "parentIsDir r (cur @ [n])" using Cons.prems(2) by (simp add: parentIsDir_iff)
    have l1: "fsLookup r1 (cur @ [n]) = Some (Dir [])"
      unfolding r1_def using lookup_put_same[of r "cur @ [n]" "Dir []" "[]"] par by simp
    obtain m' where m': "fsMkdirAll ns (Dir []) = Some m'"
      using mkdirAll_fresh[of ns] by auto
    have "mkdirWalk r1 (cur @ [n]) ns = (True, fsPut (cur @ [n]) m' r1)"
      using Cons.IH[OF vs l1] m' by simp
    moreover have "fsPut (cur @ [n]) m' r1 = fsPut cur (Dir (AList.update n m' es)) r"
      unfolding r1_def put_put by (rule put_child[OF Cons.prems(2)])
    ultimately show ?thesis using None lk v m' by (simp add: r1_def)
  next
    case (Some m)
    show ?thesis
    proof (cases m)
      case (File b)
      then show ?thesis using Some lk v by simp
    next
      case (Dir d)
      have l1: "fsLookup r (cur @ [n]) = Some (Dir d)" using lk Some Dir by simp
      have "\<And>m'. fsPut (cur @ [n]) m' r = fsPut cur (Dir (AList.update n m' es)) r"
        by (rule put_child[OF Cons.prems(2)])
      then show ?thesis using Cons.IH[OF vs l1] Some Dir lk v
        by (simp split: option.splits)
    qed
  qed
qed

lemma osMkdirAll_names:
  assumes "ns \<noteq> []" "\<forall>n\<in>set ns. validName n" "isDirAt r []"
  shows "osMkdirAll (intercalate ''/'' ns) r =
           (case fsMkdirAll ns r of Some r' \<Rightarrow> (True, r') | None \<Rightarrow> (False, r))"
proof -
  have free: "\<forall>x\<in>set ns. x \<noteq> [] \<and> CHR ''/'' \<notin> set x" using assms(2) validNameD(1,4) by auto
  then have sp: "splitOn (CHR ''/'') (intercalate ''/'' ns) = ns"
    using splitOn_intercalate[OF assms(1), of "CHR ''/''"] by auto
  obtain es where r: "r = Dir es" using assms(3) by (cases r) (auto simp: isDirAt_def)
  have "mkdirWalk r [] ns =
      (case fsMkdirAll ns (Dir es) of Some m' \<Rightarrow> (True, fsPut [] m' r) | None \<Rightarrow> (False, r))"
    by (rule mkdirWalk_names[OF assms(2)]) (simp add: r)
  then show ?thesis
    unfolding osMkdirAll_def sp using rooted_intercalate[OF assms(1) free] assms(3) r
    by (simp split: option.splits)
qed

subsection \<open>The object store\<close>

lemma readChunks_concat: "concat (readChunks bs) = bs"
proof (induction bs rule: readChunks.induct)
  case (1 bs)
  show ?case
  proof (cases "bs = []")
    case True
    then show ?thesis by (simp add: readChunks.simps)
  next
    case False
    then show ?thesis using 1 by (subst readChunks.simps) simp
  qed
qed

lemma hexEncode_length: "length (hexEncode bs) = 2 * length bs"
  by (induction bs) (simp_all add: hexEncode_def)

lemma hexDigit_in: "n < 16 \<Longrightarrow> hexDigit n \<in> hexChars"
  unfolding hexDigit_def hexChars_def by (rule nth_mem) simp

lemma of_char_less: "(of_char c :: nat) < 256"
  by (cases c) simp

lemma hexEncode_chars: "set (hexEncode bs) \<subseteq> hexChars"
proof -
  have "\<And>c. (of_char c :: nat) div 16 < 16" using of_char_less by (simp add: less_mult_imp_div_less)
  then show ?thesis by (auto simp: hexEncode_def hexDigit_in)
qed

lemma hex_validName: "s \<noteq> [] \<Longrightarrow> set s \<subseteq> hexChars \<Longrightarrow> validName s"
proof -
  assume a: "s \<noteq> []" "set s \<subseteq> hexChars"
  have "CHR ''/'' \<notin> hexChars" "CHR ''.'' \<notin> hexChars" by (simp_all add: hexChars_def)
  then have "CHR ''/'' \<notin> set s" "CHR ''.'' \<notin> set s" using a(2) by auto
  then show ?thesis using a(1) by (auto simp: validName_def)
qed

lemma lexPath_objects: "lexPath ''./.gat/objects'' = Some [''.gat'', ''objects'']"
  by (simp add: lexPath_def rooted_def Let_def)

lemma lexPath_temp: "lexPath ''./.gat/temp'' = Some [''.gat'', ''temp'']"
  by (simp add: lexPath_def rooted_def Let_def)

lemma lexPath_tempFile:
  "validName name \<Longrightarrow> lexPath (BASEDIR @ ''/temp/'' @ name) = Some [''.gat'', ''temp'', name]"
  using lexPath_child[OF lexPath_temp, of name] by (simp add: BASEDIR_def)

lemma lexPath_objectFolder:
  assumes "validName a"
  shows "lexPath (Join [BASEDIR, ''objects'', a]) = Some [''.gat'', ''objects'', a]"
proof -
  have ne: "a \<noteq> []" using assms by (simp add: validName_def)
  then have "Join [BASEDIR, ''objects'', a] = Clean (''./.gat/objects'' @ ''/'' @ a)"
    by (simp add: Join_def BASEDIR_def)
  then show ?thesis
    using lexPath_Clean[of "''./.gat/objects'' @ ''/'' @ a"] lexPath_child[OF lexPath_objects assms]
    by simp
qed

lemma lexPath_object:
  assumes "validName a" "validName b"
  shows "lexPath (Join [BASEDIR, ''objects'', a, b]) = Some [''.gat'', ''objects'', a, b]"
proof -
  have ne: "a \<noteq> []" "b \<noteq> []" using assms by (simp_all add: validName_def)
  then have "Join [BASEDIR, ''objects'', a, b] = Clean ((''./.gat/objects'' @ ''/'' @ a) @ ''/'' @ b)"
    by (simp add: Join_def BASEDIR_def)
  then show ?thesis
    using lexPath_Clean[of "(''./.gat/objects'' @ ''/'' @ a) @ ''/'' @ b"]
      lexPath_child[OF lexPath_child[OF lexPath_objects assms(1)] assms(2)]
    by simp
qed

lemma hash_parts_valid:
  assumes "length h = 40" "set h \<subseteq> hexChars"
  shows "validName (take 2 h)" "validName (drop 2 h)"
proof -
  have "set (take 2 h) \<subseteq> hexChars" "set (drop 2 h) \<subseteq> hexChars"
    using assms(2) set_take_subset set_drop_subset by fast+
  moreover have "take 2 h \<noteq> []" "drop 2 h \<noteq> []" using assms(1) by auto
  ultimately show "validName (take 2 h)" "validName (drop 2 h)" by (simp_all add: hex_validName)
qed

lemma letters_valid:
  assumes "set s \<subseteq> set letters" "s \<noteq> []"
  shows "validName s"
proof -
  have "CHR ''/'' \<notin> set letters" "CHR ''.'' \<notin> set letters" by (simp_all add: letters_def)
  then have "CHR ''/'' \<notin> set s" "CHR ''.'' \<notin> set s" using assms(1) by auto
  then show ?thesis using assms(2) by (auto simp: validName_def)
qed

lemma randomString_valid: "validName (fst (randomString L 6 w))"
proof -
  have "length letters = 62" by (simp add: letters_def)
  then have "\<And>k. letters ! (k mod length letters) \<in> set letters" by (intro nth_mem) simp
  then have "set (fst (randomString L 6 w)) \<subseteq> set letters" by (auto simp: randomString_def)
  moreover have "fst (randomString L 6 w) \<noteq> []" by (simp add: randomString_def)
  ultimately show ?thesis by (rule letters_valid)
qed

lemma randomString_world: "snd (randomString L n w) = w\<lparr>rngPos := rngPos w + n\<rparr>"
  by (simp add: randomString_def)

lemma Join_objectFolder:
  assumes "validName a"
  shows "Join [BASEDIR, ''objects'', a] = intercalate ''/'' [''.gat'', ''objects'', a]"
proof -
  have "Join [BASEDIR, ''objects'', a] = Clean (''./.gat/objects'' @ ''/'' @ a)"
    using assms by (simp add: Join_def BASEDIR_def validName_def)
  then show ?thesis
    using lexPath_Clean_string[OF lexPath_child[OF lexPath_objects assms]] by simp
qed

lemma Join_object:
  assumes "validName a" "validName b"
  shows "Join [BASEDIR, ''objects'', a, b] = intercalate ''/'' [''.gat'', ''objects'', a, b]"
proof -
  have "Join [BASEDIR, ''objects'', a, b] = Clean ((''./.gat/objects'' @ ''/'' @ a) @ ''/'' @ b)"
    using assms by (simp add: Join_def BASEDIR_def validName_def)
  then show ?thesis
    using lexPath_Clean_string[OF lexPath_child[OF lexPath_child[OF lexPath_objects assms(1)] assms(2)]]
    by simp
qed

lemma osPath_object:
  assumes "validName a" "validName b"
  shows "osPath r (Join [BASEDIR, ''objects'', a, b]) =
           (if isDirAt r [''.gat'', ''objects'', a] then Some [''.gat'', ''objects'', a, b] else None)"
proof -
  have v: "\<forall>n\<in>set [''.gat'', ''objects'', a, b]. validName n"
    using assms by (simp add: validName_def)
  show ?thesis
    unfolding Join_object[OF assms] using osPath_names[OF _ v, of r] by simp
qed

lemma osPath_gat: "osPath r ''./.gat'' = (if isDirAt r [] then Some [''.gat''] else None)"
  by (simp add: osPath_def rooted_def)

lemma isDirAt_gat: "isDirAt r (''.gat'' # q) \<Longrightarrow> isDirAt r [''.gat''] \<and> isDirAt r []"
  using isDirAt_prefix[of r "[''.gat'']" q] isDirAt_prefix[of r "[]" "[''.gat'']"] by simp

lemma osPath_tempFile:
  assumes "isDirAt r [''.gat'', ''temp'']" "validName name"
  shows "osPath r (BASEDIR @ ''/temp/'' @ name) = Some [''.gat'', ''temp'', name]"
proof -
  note g = isDirAt_gat[OF assms(1)]
  have "osPath r (''./.gat'' @ ''/'' @ ''temp'') = Some ([''.gat''] @ [''temp''])"
    by (rule osPath_child) (simp_all add: osPath_gat g validName_def)
  from osPath_child[OF this _ assms(2)] assms(1) show ?thesis by (simp add: BASEDIR_def)
qed

lemma osPath_HEAD:
  "osPath r (BASEDIR @ ''/HEAD'') = (if isDirAt r [''.gat''] then Some [''.gat'', ''HEAD''] else None)"
proof (cases "isDirAt r [''.gat'']")
  case True
  note g = isDirAt_gat[OF True]
  have "osPath r (''./.gat'' @ ''/'' @ ''HEAD'') = Some ([''.gat''] @ [''HEAD''])"
    by (rule osPath_child) (simp_all add: osPath_gat g validName_def)
  then show ?thesis using True by (simp add: BASEDIR_def)
next
  case False
  then show ?thesis by (auto simp: osPath_def rooted_def BASEDIR_def)
qed

lemma osCreate_Some:
  assumes "osCreate path r = Some r'" "osPath r path = Some t"
  shows "parentIsDir r t" "\<forall>es. fsLookup r t \<noteq> Some (Dir es)" "r' = fsPut t (File []) r"
    "fsLookup r' t = Some (File [])" "parentIsDir r' t" "osPath r' = osPath r"
proof -
  show a: "parentIsDir r t" "\<forall>es. fsLookup r t \<noteq> Some (Dir es)" "r' = fsPut t (File []) r"
    using assms by (auto simp: osCreate_def split: if_splits option.splits node.splits)
  show "fsLookup r' t = Some (File [])" using lookup_put_same[of r t "File []" "[]"] a by simp
  show "parentIsDir r' t" using a parentIsDir_put by simp
  show "osPath r' = osPath r"
    using osPath_put_file[OF a(1), of "[]"] a(2,3) by (auto simp: isDirAt_iff)
qed

lemma osCreate_succeeds:
  assumes "osPath r path = Some t" "parentIsDir r t" "\<not> isDirAt r t"
  shows "osCreate path r = Some (fsPut t (File []) r)"
  using assms by (auto simp: osCreate_def isDirAt_def split: option.splits node.splits)

lemma writeFile_File:
  assumes "osPath r path = Some t" "fsLookup r t = Some (File old)" "parentIsDir r t"
  shows "writeFile path b r = fsPut t (File b) r" "fsLookup (writeFile path b r) t = Some (File b)"
    "parentIsDir (writeFile path b r) t" "osPath (writeFile path b r) = osPath r"
proof -
  show a: "writeFile path b r = fsPut t (File b) r" using assms by (simp add: writeFile_def)
  show "fsLookup (writeFile path b r) t = Some (File b)"
    unfolding a using lookup_put_same[of r t "File b" "[]"] assms(3) by simp
  show "parentIsDir (writeFile path b r) t" unfolding a using assms(3) by (rule parentIsDir_put)
  show "osPath (writeFile path b r) = osPath r"
    unfolding a using osPath_put_file[OF assms(3), of b] assms(2) by (auto simp: isDirAt_iff)
qed

lemma osReadFile_iff:
  "osReadFile path r = Some b \<longleftrightarrow> (\<exists>p. osPath r path = Some p \<and> fsLookup r p = Some (File b))"
  by (auto simp: osReadFile_def osOpen_def split: option.splits node.splits)

subsection \<open>Reading a tree object\<close>

lemma getObjectPath_abcd: "getObjectPath ''abcd'' = Some ''.gat/objects/ab/cd''"
  by (simp add: getObjectPath_def Join_def Clean_def BASEDIR_def rooted_def Let_def)

lemma readObjectFile_garbage:
  "readObjectFile testLib ''.gat/objects/ab/cd'' (mkWorld garbageRepo) = (Ok garbageTree, mkWorld garbageRepo)"
  by code_simp

lemma splitOn_garbageTree:
  "splitOn NL garbageTree = [''blob'' @ [TAB] @ ''1234'' @ [TAB] @ ''a.txt'', ''garbage'', []]"
  by (simp add: garbageTree_def treeRow_def NL_def TAB_def)

lemma treeLines_rows:
  "map (\<lambda>(k, h, n). [k, h, n]) (treeLines lines) =
   filter (\<lambda>e. length e = 3) (map (splitOn TAB) lines)"
proof (induction lines)
  case (Cons l ls)
  show ?case
  proof (cases "splitOn TAB l")
    case Nil
    then show ?thesis using Cons by simp
  next
    case (Cons a as)
    then show ?thesis using Cons.IH
      by (cases as; cases "tl as"; cases "tl (tl as)"; cases "tl (tl (tl as))") auto
  qed
qed simp

lemma treeLines_garbage:
  "treeLines [''blob'' @ [TAB] @ ''1234'' @ [TAB] @ ''a.txt'', ''garbage'', []] =
   [(''blob'', ''1234'', ''a.txt'')]"
  by (simp add: TAB_def)

text \<open>
  Claim C7, as stated, fails: the object at \<^verbatim>\<open>abcd\<close> holds the non-empty line
  \<^verbatim>\<open>garbage\<close>, which has one field and not three, and \<^verbatim>\<open>readTree\<close> returns the one
  well-formed row with no error.
\<close>

theorem readTree_malformed_succeeds:
  "osReadFile ''.gat/objects/ab/cd'' garbageRepo = Some garbageTree \<and>
   ''garbage'' \<in> set (splitOn NL garbageTree) \<and>
   length (splitOn TAB ''garbage'') \<noteq> 3 \<and>
   readTree testLib ''abcd'' (mkWorld garbageRepo) =
     (Ok [(''blob'', ''1234'', ''a.txt'')], mkWorld garbageRepo)"
proof (intro conjI)
  show "osReadFile ''.gat/objects/ab/cd'' garbageRepo = Some garbageTree"
    by code_simp
  show "''garbage'' \<in> set (splitOn NL garbageTree)"
    unfolding splitOn_garbageTree by simp
  show "length (splitOn TAB ''garbage'') \<noteq> 3"
    by (simp add: TAB_def)
  show "readTree testLib ''abcd'' (mkWorld garbageRepo) =
      (Ok [(''blob'', ''1234'', ''a.txt'')], mkWorld garbageRepo)"
    unfolding readTree_def getObjectPath_abcd option.case readObjectFile_garbage andThen_def
      prod.case result.case splitOn_garbageTree treeLines_garbage ..
qed

text \<open>
  Claim C7, amended: deserializing a tree object never fails on the text of the object.
  Whenever the object is read and decompressed, \<^verbatim>\<open>readTree\<close> succeeds, and it returns, in
  order, exactly the lines that consist of three tab-separated fields; every other line
  is passed over.
\<close>

theorem readTree_skips_malformed_lines:
  assumes "getObjectPath treeHash = Some objPath"
    and "readObjectFile L objPath w = (Ok text, w')"
  shows "\<exists>rows. readTree L treeHash w = (Ok rows, w') \<and>
           map (\<lambda>(k, h, n). [k, h, n]) rows =
             filter (\<lambda>e. length e = 3) (map (splitOn TAB) (splitOn NL text))"
  using assms by (simp add: readTree_def andThen_def treeLines_rows)

theorem readTree_skips_malformed_lines_witness:
  "\<exists>rows. readTree testLib ''abcd'' (mkWorld garbageRepo) = (Ok rows, mkWorld garbageRepo) \<and>
     map (\<lambda>(k, h, n). [k, h, n]) rows =
       filter (\<lambda>e. length e = 3) (map (splitOn TAB) (splitOn NL garbageTree))"
  using readTree_skips_malformed_lines [OF getObjectPath_abcd readObjectFile_garbage] .

subsection \<open>A hash shorter than two bytes\<close>

lemma prepareDirs_fresh: "prepareDirs (mkWorld (Dir [])) = (Ok (), mkWorld freshRepo)"
  by code_simp

lemma getCurrentHead_fresh: "getCurrentHead (mkWorld freshRepo) = Ok []"
  by code_simp

lemma readCommit_short: "length hash < 2 \<Longrightarrow> readCommit L hash w = (Panic, w)"
  by (simp add: readCommit_def getObjectPath_def)

text \<open>
  Claim C10: the path of an object is derived by slicing the hash at 2, which panics on
  a hash of fewer than two bytes. So for such a hash, and for the empty one that the
  branch file of a fresh repository holds, reading the commit panics, and with it the
  revert (\<^verbatim>\<open>switchToCommit\<close>) and the log (\<^verbatim>\<open>printLog\<close>, which starts from the current
  head); none of them returns an error.
\<close>

theorem short_hash_panics:
  assumes "length hash < 2"
  shows "getObjectPath hash = None \<and>
         readCommit L hash w = (Panic, w) \<and>
         switchToCommit k L hash w = Some (Panic, w) \<and>
         (getCurrentHead w = Ok hash \<longrightarrow> printLog L w = Some (Panic, w))"
proof (intro conjI impI)
  show "getObjectPath hash = None" using assms by (simp add: getObjectPath_def)
  show "readCommit L hash w = (Panic, w)" by (rule readCommit_short[OF assms])
  show "switchToCommit k L hash w = Some (Panic, w)"
    by (simp add: switchToCommit_def readCommit_short[OF assms])
  assume "getCurrentHead w = Ok hash"
  then show "printLog L w = Some (Panic, w)"
    unfolding printLog_def by (subst logLoop.simps) (simp add: readCommit_short[OF assms])
qed

theorem short_hash_panics_witness:
  "prepareDirs (mkWorld (Dir [])) = (Ok (), mkWorld freshRepo) \<and>
   getCurrentHead (mkWorld freshRepo) = Ok [] \<and>
   readCommit testLib [] (mkWorld freshRepo) = (Panic, mkWorld freshRepo) \<and>
   switchToCommit 1 testLib [] (mkWorld freshRepo) = Some (Panic, mkWorld freshRepo) \<and>
   printLog testLib (mkWorld freshRepo) = Some (Panic, mkWorld freshRepo)"
  using short_hash_panics [of "[]" testLib "mkWorld freshRepo" 1] prepareDirs_fresh
    getCurrentHead_fresh
  by simp

lemma filesOnly_lookup: "filesOnly es \<Longrightarrow> map_of es n = Some m \<Longrightarrow> \<exists>b. m = File b"
  by (cases m) (auto simp: filesOnly_def list_all_iff isDir_def dest!: map_of_SomeD)

lemma wfStore_temp:
  assumes "wfStore r"
  shows "isDirAt r [''.gat'', ''temp'']" "\<not> isDirAt r [''.gat'', ''temp'', n]"
proof -
  from assms obtain ts where ts: "fsLookup r [''.gat'', ''temp''] = Some (Dir ts)" "filesOnly ts"
    by (auto simp: wfStore_def split: option.splits node.splits)
  then show "isDirAt r [''.gat'', ''temp'']" by (simp add: isDirAt_iff)
  have "fsLookup r ([''.gat'', ''temp''] @ [n]) = map_of ts n"
    using ts(1) by (simp only: lookup_append) (simp split: option.splits)
  then show "\<not> isDirAt r [''.gat'', ''temp'', n]"
    using filesOnly_lookup[OF ts(2), of n] by (cases "map_of ts n") (auto simp: isDirAt_iff)
qed

lemma wfStore_objects:
  assumes "wfStore r"
  obtains os where "fsLookup r [''.gat'', ''objects''] = Some (Dir os)"
    "\<And>a m. map_of os a = Some m \<Longrightarrow> \<exists>fs. m = Dir fs \<and> filesOnly fs"
proof -
  from assms obtain os where os: "fsLookup r [''.gat'', ''objects''] = Some (Dir os)"
    "list_all (\<lambda>(a, m). case m of Dir fs \<Rightarrow> filesOnly fs | File _ \<Rightarrow> False) os"
    by (auto simp: wfStore_def split: option.splits node.splits)
  have "\<And>a m. map_of os a = Some m \<Longrightarrow> \<exists>fs. m = Dir fs \<and> filesOnly fs"
  proof -
    fix a m assume "map_of os a = Some m"
    then have "(a, m) \<in> set os" by (rule map_of_SomeD)
    then show "\<exists>fs. m = Dir fs \<and> filesOnly fs"
      using os(2) by (cases m) (auto simp: list_all_iff)
  qed
  then show ?thesis using os(1) that by blast
qed

lemma lookup_child: "fsLookup r p = Some (Dir es) \<Longrightarrow> fsLookup r (p @ [c]) = map_of es c"
  by (simp add: lookup_append split: option.splits)

lemma isDirAt_put_new:
  assumes "fsLookup r x = None" "isDirAt r q"
  shows "isDirAt (fsPut x v r) q"
proof -
  consider "prefix x q" | "strict_prefix q x" | "\<not> prefix x q" "\<not> prefix q x"
    by (auto simp: strict_prefix_def)
  then show ?thesis
  proof cases
    case 1
    then obtain s where "q = x @ s" by (auto simp: prefix_def)
    then have "fsLookup r q = None" using assms(1) by (simp add: lookup_append)
    then show ?thesis using assms(2) by (simp add: isDirAt_iff)
  next
    case 2
    from isDir_kind[OF lookup_put_above[OF this, of v r]] assms(2) show ?thesis
      by (simp add: isDirAt_iff)
  next
    case 3
    then show ?thesis using assms(2) by (simp add: isDirAt_def lookup_put_other)
  qed
qed

text \<open>
  In a well-formed repository \<^verbatim>\<open>createBlob\<close> succeeds on every readable file that is not
  its own temporary file, and leaves the compressed bytes under the hash.
\<close>

lemma store_succeeds:
  assumes digest: "\<forall>x. length (sha1Sum L x) = 20"
    and src: "osReadFile path (root w) = Some b"
    and fresh: "osPath (root w) path \<noteq> Some [''.gat'', ''temp'', fst (randomString L 6 w)]"
    and wf: "wfStore (root w)"
  shows "\<exists>r5. createBlob L path w =
                (Ok (hexEncode (sha1Sum L b)), w\<lparr>rngPos := rngPos w + 6, root := r5\<rparr>) \<and>
              osReadFile (Join [BASEDIR, ''objects'', take 2 (hexEncode (sha1Sum L b)),
                                drop 2 (hexEncode (sha1Sum L b))]) r5 = Some (lzwEncode L b)"
proof -
  define r where "r = root w"
  define name where "name = fst (randomString L 6 w)"
  define temp where "temp = BASEDIR @ ''/temp/'' @ name"
  define t where "t = [''.gat'', ''temp'', name]"
  define h where "h = hexEncode (sha1Sum L b)"
  define enc where "enc = lzwEncode L b"
  define a where "a = take 2 h"
  define b' where "b' = drop 2 h"
  define og where "og = [''.gat'', ''objects'']"
  define oa where "oa = og @ [a]"
  define q where "q = oa @ [b']"
  have oal: "oa = [''.gat'', ''objects'', a]" by (simp add: oa_def og_def)
  have ql: "q = [''.gat'', ''objects'', a, b']" by (simp add: q_def oal)
  have rs: "randomString L 6 w = (name, w\<lparr>rngPos := rngPos w + 6\<rparr>)"
    by (simp add: name_def randomString_def)
  have vn: "validName name" unfolding name_def by (rule randomString_valid)
  have len: "length h = 40" unfolding h_def using digest by (simp add: hexEncode_length)
  have "set h \<subseteq> hexChars" unfolding h_def by (rule hexEncode_chars)
  note parts = hash_parts_valid[OF len this, folded a_def b'_def]
  \<comment> \<open>the temporary file\<close>
  note wt = wfStore_temp[OF wf, folded r_def]
  have tp: "osPath r temp = Some t"
    unfolding temp_def t_def by (rule osPath_tempFile[OF wt(1) vn])
  have par: "parentIsDir r t" using wt(1) by (simp add: parentIsDir_isDirAt t_def)
  have nd: "\<not> isDirAt r t" unfolding t_def by (rule wt(2))
  have cr: "osCreate temp r = Some (fsPut t (File []) r)"
    by (rule osCreate_succeeds[OF tp par nd])
  define r2 where "r2 = fsPut t (File []) r"
  note c = osCreate_Some[OF cr tp, folded r2_def]
  \<comment> \<open>the source\<close>
  from src obtain p where p: "osPath r path = Some p" "fsLookup r p = Some (File b)"
    by (auto simp: osReadFile_iff r_def)
  have pt: "p \<noteq> t" using fresh p(1) by (auto simp: r_def t_def name_def)
  have "fsLookup r2 p = Some (File b)"
    unfolding r2_def by (rule put_keeps_file[OF c(1) c(2) p(2) pt])
  then have op: "osOpen path r = Some (File b)" "osOpen path r2 = Some (File b)"
    using p c(6) by (simp_all add: osOpen_def)
  \<comment> \<open>the compressed bytes\<close>
  define r3 where "r3 = fsPut t (File enc) r2"
  have tp2: "osPath r2 temp = Some t" using tp c(6) by simp
  note wr = writeFile_File[OF tp2 c(4) c(5), of enc, folded r3_def]
  have wre: "writeFile temp enc r2 = r3" using wr(1) by (simp add: r3_def)
  have os3: "osPath r3 = osPath r" using wr(4) c(6) wre by simp
  have sk3: "\<And>x. isDirAt r3 x = isDirAt r x"
    unfolding r3_def r2_def put_put using isDirAt_put_file[OF par nd] by simp
  \<comment> \<open>the folder of the object\<close>
  from wfStore_objects[OF wf, folded r_def og_def] obtain os where
    os: "fsLookup r og = Some (Dir os)"
    and osf: "\<And>a m. map_of os a = Some m \<Longrightarrow> \<exists>fs. m = Dir fs \<and> filesOnly fs"
    by blast
  have inc: "\<not> prefix t og" "\<not> prefix og t"
    "\<not> prefix t oa" "\<not> prefix oa t" "\<not> prefix t q" "\<not> prefix q t" "t \<noteq> q"
    by (simp_all add: t_def oal ql og_def)
  have lo3: "fsLookup r3 og = Some (Dir os)"
    unfolding r3_def r2_def put_put by (simp only: lookup_put_other[OF inc(1,2)] os)
  have t3: "fsLookup r3 t = Some (File enc)" using wr(2) wre by simp
  have oa3: "fsLookup r3 oa = map_of os a"
    unfolding oa_def by (rule lookup_child[OF lo3])
  have "\<exists>r4 d. fsMkdirAll oa r3 = Some r4 \<and> fsLookup r4 oa = Some (Dir d) \<and> filesOnly d \<and>
          fsLookup r4 t = Some (File enc) \<and> (\<forall>x. isDirAt r3 x \<longrightarrow> isDirAt r4 x)"
  proof (cases "map_of os a")
    case None
    have paroa: "parentIsDir r3 oa" using lo3 by (simp add: parentIsDir_iff oa_def)
    have "fsMkdirAll oa r3 = Some (fsPut oa (Dir []) r3)"
      using mkdirAll_child[OF lo3, of a] None by (simp add: oa_def)
    moreover have "fsLookup (fsPut oa (Dir []) r3) oa = Some (Dir [])"
      using lookup_put_same[of r3 oa "Dir []" "[]"] paroa by simp
    moreover have "fsLookup (fsPut oa (Dir []) r3) t = Some (File enc)"
      using t3 by (simp add: lookup_put_other[OF inc(4,3)])
    moreover have "\<forall>x. isDirAt r3 x \<longrightarrow> isDirAt (fsPut oa (Dir []) r3) x"
      using isDirAt_put_new[of r3 oa] oa3 None by simp
    ultimately show ?thesis by (auto simp: filesOnly_def)
  next
    case (Some m)
    from osf[OF this] obtain fs where m: "m = Dir fs" "filesOnly fs" by blast
    have "fsMkdirAll oa r3 = Some r3"
      using mkdirAll_child[OF lo3, of a] Some m by (simp add: oa_def)
    then show ?thesis using oa3 Some m t3 by auto
  qed
  then obtain r4 d where mk: "fsMkdirAll oa r3 = Some r4"
    and d4: "fsLookup r4 oa = Some (Dir d)" "filesOnly d"
    and t4: "fsLookup r4 t = Some (File enc)"
    and sk4: "\<And>x. isDirAt r3 x \<Longrightarrow> isDirAt r4 x" by blast
  have root3: "isDirAt r3 []" using sk3 isDirAt_gat[of r "[''temp'']"] wt(1) by simp
  have voa: "\<forall>n\<in>set oa. validName n" using parts(1) by (simp add: oal validName_def)
  have sub: "getObjectFolderPath h = Some (intercalate ''/'' oa)"
    using len Join_objectFolder[OF parts(1)] by (simp add: getObjectFolderPath_def a_def oal)
  have om: "osMkdirAll (intercalate ''/'' oa) r3 = (True, r4)"
    using osMkdirAll_names[OF _ voa root3] mk by (simp add: oa_def)
  \<comment> \<open>the rename\<close>
  define obj where "obj = Join [BASEDIR, ''objects'', a, b']"
  have gobj: "getObjectPath h = Some obj"
    using len by (simp add: getObjectPath_def obj_def a_def b'_def)
  have dir4: "isDirAt r4 oa" using d4(1) by (simp add: isDirAt_iff)
  have op4: "osPath r4 obj = Some q"
    using osPath_object[OF parts, of r4] dir4 by (simp only: obj_def ql oal if_True)
  have tp4: "osPath r4 temp = Some t"
    by (rule osPath_mono[of r3 r4, OF sk4]) (simp_all add: os3 tp)
  have q4: "fsLookup r4 q = map_of d b'"
    unfolding q_def by (rule lookup_child[OF d4(1)])
  have nq: "\<not> isDirAt r4 q"
    using q4 filesOnly_lookup[OF d4(2), of b'] by (cases "map_of d b'") (auto simp: isDirAt_iff)
  have pq: "parentIsDir r4 q" using dir4 by (simp add: parentIsDir_isDirAt q_def)
  define r5 where "r5 = fsPut q (File enc) (fsRemove t r4)"
  have tk: "take (length t) q \<noteq> t" by (simp add: t_def ql)
  have rn: "osRename temp obj r4 = Some r5"
    using tp4 op4 t4 pq inc(7) tk nq
    by (cases "fsLookup r4 q")
       (auto simp: osRename_def r5_def t_def isDirAt_iff split: node.splits list.splits)
  \<comment> \<open>the object\<close>
  have rm: "fsLookup (fsRemove t r4) (butlast q) = fsLookup r4 (butlast q)"
    "fsLookup (fsRemove t r4) q = fsLookup r4 q"
    using lookup_remove_other[OF inc(3,4)] lookup_remove_other[OF inc(5,6)]
    by (simp_all add: q_def)
  have pq': "parentIsDir (fsRemove t r4) q" using pq rm(1) by (simp add: parentIsDir_def)
  have nq': "\<not> isDirAt (fsRemove t r4) q" using nq rm(2) by (simp add: isDirAt_def)
  have q5: "fsLookup r5 q = Some (File enc)"
    unfolding r5_def using lookup_put_same[of _ q "File enc" "[]"] pq' by simp
  have "osPath r5 obj = osPath r4 obj"
    unfolding r5_def using osPath_put_file[OF pq' nq'] osPath_remove_file[OF t4] by (simp add: t_def)
  then have rd: "osReadFile obj r5 = Some enc" using op4 q5 by (simp add: osReadFile_iff)
  have tn: "BASEDIR @ CHR ''/'' # CHR ''t'' # CHR ''e'' # CHR ''m'' # CHR ''p'' # CHR ''/'' # name = temp"
    by (simp add: temp_def)
  have "createBlob L path w = (Ok h, w\<lparr>rngPos := rngPos w + 6, root := r5\<rparr>)"
    using op cr[folded r2_def] wre len sub om gobj rn
    by (simp add: createBlob_def rs r_def[symmetric] tn Let_def
        readChunks_concat enc_def[symmetric] h_def[symmetric])
  then show ?thesis using rd unfolding h_def obj_def a_def b'_def enc_def by blast
qed

subsection \<open>Storing and loading an object\<close>

text \<open>
  C1, as the claim is worded. \<^verbatim>\<open>createBlob\<close> creates (and so truncates) its temporary file
  \<^verbatim>\<open>.gat/temp/<random name>\<close> before it opens the source. When the source is that very
  file, as for the file \<^verbatim>\<open>.gat/temp/abcdef\<close> of five bytes in \<open>collideRepo\<close>, the call
  succeeds, but what it stores, and what loading the returned hash yields, is the empty
  sequence and not the five bytes: \<open>load (store b) \<noteq> b\<close>. (\<^verbatim>\<open>createTree\<close> and
  \<^verbatim>\<open>createCommit\<close> call \<^verbatim>\<open>createBlob\<close> on files of \<^verbatim>\<open>.gat/temp\<close>.)
\<close>

theorem store_truncates_own_temp_file:
  "osReadFile ''./.gat/temp/abcdef'' (root (mkWorld collideRepo)) = Some ''hello'' \<and>
   fst (createBlob testLib ''./.gat/temp/abcdef'' (mkWorld collideRepo)) =
     Ok ''6161616161616161616161616161616161616161'' \<and>
   getObjectPath ''6161616161616161616161616161616161616161'' =
     Some ''.gat/objects/61/61616161616161616161616161616161616161'' \<and>
   fst (readObjectFile testLib ''.gat/objects/61/61616161616161616161616161616161616161''
         (snd (createBlob testLib ''./.gat/temp/abcdef'' (mkWorld collideRepo)))) = Ok []"
  by code_simp

text \<open>
  C1, amended. Let the compress/lzw reader invert the writer and the digest have 20 bytes
  (both packages are parameters of the model), and let \<^verbatim>\<open>.gat/temp\<close> hold only files and
  \<^verbatim>\<open>.gat/objects\<close> only folders of files (\<open>wfStore\<close>: what \<^verbatim>\<open>init\<close> creates and the store
  keeps). Then for every byte sequence \<open>b\<close>, the empty one included, and every path at
  which a file holding \<open>b\<close> is read, other than the temporary file that this call of
  \<^verbatim>\<open>createBlob\<close> draws, \<^verbatim>\<open>createBlob\<close> succeeds, returns the hex digest of \<open>b\<close>, and
  \<^verbatim>\<open>readObjectFile\<close> at the path derived from the returned hash yields exactly \<open>b\<close>.
\<close>

theorem store_then_load:
  assumes codec: "\<And>x. lzwDecode L (lzwEncode L x) = (x, True)"
    and digest: "\<And>x. length (sha1Sum L x) = 20"
    and wf: "wfStore (root w)"
    and src: "osReadFile path (root w) = Some b"
    and fresh: "osPath (root w) path \<noteq> Some [''.gat'', ''temp'', fst (randomString L 6 w)]"
  shows "\<exists>w' objPath.
           createBlob L path w = (Ok (hexEncode (sha1Sum L b)), w') \<and>
           getObjectPath (hexEncode (sha1Sum L b)) = Some objPath \<and>
           readObjectFile L objPath w' = (Ok b, w')"
proof -
  define h where "h = hexEncode (sha1Sum L b)"
  define obj where "obj = Join [BASEDIR, ''objects'', take 2 h, drop 2 h]"
  from digest have "\<forall>x. length (sha1Sum L x) = 20" by simp
  from store_succeeds[OF this src fresh wf] obtain r5 where
    cb: "createBlob L path w = (Ok h, w\<lparr>rngPos := rngPos w + 6, root := r5\<rparr>)"
    and rd: "osReadFile obj r5 = Some (lzwEncode L b)"
    unfolding h_def obj_def by blast
  have "length h = 40" unfolding h_def using digest by (simp add: hexEncode_length)
  then have gp: "getObjectPath h = Some obj" by (simp add: getObjectPath_def obj_def)
  from rd have "osOpen obj r5 = Some (File (lzwEncode L b))"
    by (auto simp: osReadFile_def split: option.splits node.splits)
  then have "readObjectFile L obj (w\<lparr>rngPos := rngPos w + 6, root := r5\<rparr>) =
               (Ok b, w\<lparr>rngPos := rngPos w + 6, root := r5\<rparr>)"
    using codec[of b] by (simp add: readObjectFile_def)
  with cb gp show ?thesis unfolding h_def by blast
qed

theorem store_then_load_witness:
  "(\<exists>w' objPath.
      createBlob headerLib ''./a.txt'' (mkWorld workRepo) =
        (Ok (hexEncode (sha1Sum headerLib ''hello'')), w') \<and>
      getObjectPath (hexEncode (sha1Sum headerLib ''hello'')) = Some objPath \<and>
      readObjectFile headerLib objPath w' = (Ok ''hello'', w')) \<and>
   (\<exists>w' objPath.
      createBlob headerLib ''./empty.txt'' (mkWorld workRepo) =
        (Ok (hexEncode (sha1Sum headerLib [])), w') \<and>
      getObjectPath (hexEncode (sha1Sum headerLib [])) = Some objPath \<and>
      readObjectFile headerLib objPath w' = (Ok [], w')) \<and>
   hexEncode (sha1Sum headerLib ''hello'') = ''68656c6c6f616161616161616161616161616161'' \<and>
   lzwEncode headerLib ''hello'' = ''Zhello''"
proof -
  have codec: "\<And>x. lzwDecode headerLib (lzwEncode headerLib x) = (x, True)"
    by (simp add: headerLib_def testLib_def)
  have digest: "\<And>x. length (sha1Sum headerLib x) = 20"
    by (simp add: headerLib_def testLib_def min_def)
  have wf: "wfStore (root (mkWorld workRepo))" by code_simp
  have src: "osReadFile ''./a.txt'' (root (mkWorld workRepo)) = Some ''hello''"
    "osReadFile ''./empty.txt'' (root (mkWorld workRepo)) = Some []"
    by code_simp+
  have fresh:
    "osPath (root (mkWorld workRepo)) ''./a.txt'' \<noteq>
       Some [''.gat'', ''temp'', fst (randomString headerLib 6 (mkWorld workRepo))]"
    "osPath (root (mkWorld workRepo)) ''./empty.txt'' \<noteq>
       Some [''.gat'', ''temp'', fst (randomString headerLib 6 (mkWorld workRepo))]"
    by code_simp+
  have conc: "hexEncode (sha1Sum headerLib ''hello'') = ''68656c6c6f616161616161616161616161616161''"
    "lzwEncode headerLib ''hello'' = ''Zhello''"
    by code_simp+
  from store_then_load [OF codec digest wf src(1) fresh(1)]
       store_then_load [OF codec digest wf src(2) fresh(2)] conc
  show ?thesis by blast
qed

subsection \<open>The hash-length check\<close>

lemma createBlob_HashLength:
  "(\<exists>w'. createBlob L path w = (Error (HashLength n), w')) =
   (\<exists>content. blobInput L path w = Some content \<and>
      n = length (hexEncode (sha1Sum L content)) \<and> n \<noteq> 40)"
  unfolding createBlob_def blobInput_def
  by (auto simp: Let_def readChunks_concat randomString_def say_def
      split: option.splits node.splits prod.splits bool.splits if_splits)

text \<open>
  Claim C9: \<^verbatim>\<open>createBlob\<close> returns the hash-length error exactly when it has read its
  input and the hex digest of that input is not 40 characters long. The digest of SHA-1
  has 20 bytes, so its hex encoding always has 40 characters and the error is never
  returned.
\<close>

theorem hash_error_unreachable:
  "((\<exists>w'. createBlob L path w = (Error (HashLength n), w')) =
    (\<exists>content. blobInput L path w = Some content \<and>
       n = length (hexEncode (sha1Sum L content)) \<and> n \<noteq> 40)) \<and>
   ((\<forall>x. length (sha1Sum L x) = 20) \<longrightarrow>
      (\<forall>content. length (hexEncode (sha1Sum L content)) = 40) \<and>
      fst (createBlob L path w) \<noteq> Error (HashLength n))"
proof (intro conjI impI)
  show "(\<exists>w'. createBlob L path w = (Error (HashLength n), w')) =
    (\<exists>content. blobInput L path w = Some content \<and>
       n = length (hexEncode (sha1Sum L content)) \<and> n \<noteq> 40)"
    by (rule createBlob_HashLength)
  assume d: "\<forall>x. length (sha1Sum L x) = 20"
  then show len: "\<forall>content. length (hexEncode (sha1Sum L content)) = 40"
    by (simp add: hexEncode_length)
  show "fst (createBlob L path w) \<noteq> Error (HashLength n)"
  proof
    assume "fst (createBlob L path w) = Error (HashLength n)"
    then have "\<exists>w'. createBlob L path w = (Error (HashLength n), w')"
      by (cases "createBlob L path w") auto
    then show False using createBlob_HashLength[of L path w n] len by auto
  qed
qed

theorem hash_error_unreachable_witness:
  "(\<forall>x. length (sha1Sum testLib x) = 20) \<and>
   fst (createBlob testLib ''./a.txt'' (mkWorld workRepo)) \<noteq> Error (HashLength 10) \<and>
   blobInput badLib ''./a.txt'' (mkWorld workRepo) = Some ''hello'' \<and>
   (\<exists>w'. createBlob badLib ''./a.txt'' (mkWorld workRepo) = (Error (HashLength 10), w'))"
proof -
  have d: "\<forall>x. length (sha1Sum testLib x) = 20" by (simp add: testLib_def min_def)
  have b: "blobInput badLib ''./a.txt'' (mkWorld workRepo) = Some ''hello''" by code_simp
  have n: "(10::nat) = length (hexEncode (sha1Sum badLib ''hello'')) \<and> (10::nat) \<noteq> 40" by code_simp
  from hash_error_unreachable [of testLib "''./a.txt''" "mkWorld workRepo" 10]
    hash_error_unreachable [of badLib "''./a.txt''" "mkWorld workRepo" 10] d b n
  show ?thesis by blast
qed

subsection \<open>Creating a commit\<close>

text \<open>A failure to serialize the commit is returned, wrapped.\<close>

lemma createCommit_encode_error:
  assumes "osCreate (BASEDIR @ ''/temp/'' @ fst (randomString L 6 w)) (root w) = Some r2"
    and "gobEncode L \<lparr>TreeHash = treeHash, ParentCommit = parentCommitHash, Message = message,
                       Timestamp = clock w\<rparr> = None"
  shows "createCommit L treeHash parentCommitHash message w =
           (Error (Wrapped ''failed to seriliaze commit, error'' GobEncodeError),
            w\<lparr>rngPos := rngPos w + 6, root := r2\<rparr>)"
  using assms by (simp add: createCommit_def randomString_def Let_def)

text \<open>A failure to store the commit is not: every error of \<^verbatim>\<open>createBlob\<close> ends in a panic.\<close>

lemma createCommit_store_error:
  assumes "osCreate (BASEDIR @ ''/temp/'' @ fst (randomString L 6 w)) (root w) = Some r2"
    and "gobEncode L \<lparr>TreeHash = treeHash, ParentCommit = parentCommitHash, Message = message,
                       Timestamp = clock w\<rparr> = Some bytes"
    and "createBlob L (BASEDIR @ ''/temp/'' @ fst (randomString L 6 w))
           (w\<lparr>rngPos := rngPos w + 6,
              root := writeFile (BASEDIR @ ''/temp/'' @ fst (randomString L 6 w)) bytes r2\<rparr>) =
         (Error e, w3)"
  shows "createCommit L treeHash parentCommitHash message w = (Panic, w3)"
  using assms by (simp add: createCommit_def randomString_def Let_def)

text \<open>
  Claim C8 does not hold of the code: in \<open>strayRepo\<close>, which \<^verbatim>\<open>prepareDirs\<close> accepts as it
  is, storing the commit object fails (the folder \<^verbatim>\<open>.gat/objects/61\<close> cannot be made), and
  \<^verbatim>\<open>createCommit\<close> panics on the nil hash instead of returning that error.
\<close>

theorem createCommit_store_failure_panics:
  "prepareDirs (mkWorld strayRepo) = (Ok (), mkWorld strayRepo) \<and>
   fst (createBlob testLib ''./.gat/temp/abcdef''
          ((mkWorld strayRepo)\<lparr>rngPos := 6,
             root := writeFile ''./.gat/temp/abcdef'' (''abcd'' @ [NL] @ [] @ [NL] @ ''msg'')
                       (the (osCreate ''./.gat/temp/abcdef'' strayRepo))\<rparr>)) =
     Error (SubfolderError ''.gat/objects/61'') \<and>
   fst (createCommit testLib ''abcd'' [] ''msg'' (mkWorld strayRepo)) = Panic"
proof (intro conjI)
  show "prepareDirs (mkWorld strayRepo) = (Ok (), mkWorld strayRepo)"
    by code_simp
  show "fst (createBlob testLib ''./.gat/temp/abcdef''
          ((mkWorld strayRepo)\<lparr>rngPos := 6,
             root := writeFile ''./.gat/temp/abcdef'' (''abcd'' @ [NL] @ [] @ [NL] @ ''msg'')
                       (the (osCreate ''./.gat/temp/abcdef'' strayRepo))\<rparr>)) =
     Error (SubfolderError ''.gat/objects/61'')"
    by code_simp
  show "fst (createCommit testLib ''abcd'' [] ''msg'' (mkWorld strayRepo)) = Panic"
    by code_simp
qed

subsection \<open>The log\<close>

lemma readObjectFile_Ok_world: "readObjectFile L p w = (Ok x, w') \<Longrightarrow> w' = w"
  by (auto simp: readObjectFile_def split: option.splits node.splits prod.splits bool.splits)

lemma readObjectFile_root:
  "root w2 = root w \<Longrightarrow> fst (readObjectFile L p w2) = fst (readObjectFile L p w)"
  by (auto simp: readObjectFile_def split: option.splits node.splits prod.splits bool.splits)

lemma readCommit_Ok_world: "readCommit L h w = (Ok c, w') \<Longrightarrow> w' = w"
  by (auto simp: readCommit_def andThen_def dest: readObjectFile_Ok_world
      split: option.splits prod.splits result.splits)

lemma readCommit_fst:
  "fst (readCommit L h w) =
     (case getObjectPath h of
        None \<Rightarrow> Panic
      | Some p \<Rightarrow>
          (case fst (readObjectFile L p w) of
             Ok content \<Rightarrow>
               (case gobDecode L content of
                  None \<Rightarrow> Error (Wrapped ''error decoding commit'' GobDecodeError)
                | Some c \<Rightarrow> Ok c)
           | Error e \<Rightarrow> Error e
           | Panic \<Rightarrow> Panic
           | Fatal \<Rightarrow> Fatal))"
proof (cases "getObjectPath h")
  case None
  then show ?thesis by (simp add: readCommit_def)
next
  case (Some p)
  obtain r w1 where rw: "readObjectFile L p w = (r, w1)" by (cases "readObjectFile L p w")
  show ?thesis using Some rw
    by (cases r) (simp_all add: readCommit_def andThen_def split: option.splits)
qed

lemma readCommit_root:
  "root w2 = root w \<Longrightarrow> fst (readCommit L h w2) = fst (readCommit L h w)"
  using readObjectFile_root[of w2 w L]
  by (cases "getObjectPath h") (simp_all add: readCommit_fst)

lemma readCommit_Ok_length: "fst (readCommit L h w) = Ok c \<Longrightarrow> 2 \<le> length h"
  by (auto simp: readCommit_def getObjectPath_def split: if_splits)

lemma isChain_root: "root w2 = root w \<Longrightarrow> isChain L w2 hist = isChain L w hist"
proof (induction hist rule: induct_list012)
  case (2 x)
  assume "root w2 = root w"
  then show ?case using readCommit_root[of w2 w L] by (cases x) simp
next
  case (3 x y zs)
  then show ?case using readCommit_root[of w2 w L] by (cases x; cases y) simp
qed simp

lemma logLoop_chain:
  "isChain L w hist \<Longrightarrow>
   logLoop L (fst (hd hist)) w =
     Some (Ok (), w\<lparr>stdout := stdout w @ map (\<lambda>(h, c). LogEntry h c) hist\<rparr>)"
proof (induction hist arbitrary: w rule: induct_list012)
  case 1
  then show ?case by simp
next
  case (2 x)
  obtain h c where x: "x = (h, c)" by (cases x)
  with 2 have "readCommit L h w = (Ok c, w)" "ParentCommit c = []"
    using readCommit_Ok_world[of L h w c] by (cases "readCommit L h w"; auto)+
  then show ?case using x by (subst logLoop.simps) (simp add: say_def)
next
  case (3 x y zs)
  obtain h c h' c' where x: "x = (h, c)" "y = (h', c')" by (cases x; cases y) auto
  with 3(3) have rc: "readCommit L h w = (Ok c, w)" and p: "ParentCommit c = h'"
    and ch: "isChain L w (y # zs)"
    using readCommit_Ok_world[of L h w c] by (cases "readCommit L h w"; auto)+
  have "fst (readCommit L h' w) = Ok c'" using ch x by (cases zs) auto
  then have len: "0 < length h'" using readCommit_Ok_length by fastforce
  have "isChain L (say (LogEntry h c) w) (y # zs)"
    using ch isChain_root[of "say (LogEntry h c) w" w] by (simp add: say_def)
  from 3(2)[OF this] show ?case using rc p len x
    by (subst logLoop.simps) (simp add: say_def)
qed

text \<open>
  Claim C3: the log follows the parent links from the current head and stops at the
  commit whose parent is empty. For a history \<open>hist\<close> (each commit readable under its
  hash and naming the next as its parent, the last one a root) \<^verbatim>\<open>printLog\<close> returns, and
  what it has printed is exactly the commits of \<open>hist\<close> in order; for a root commit A
  and a commit B whose parent is A that is the sequence B, A.
\<close>

theorem log_walks_history:
  assumes "isChain L w hist" "getCurrentHead w = Ok (fst (hd hist))"
  shows "printLog L w =
           Some (Ok (), w\<lparr>stdout := stdout w @ map (\<lambda>(h, c). LogEntry h c) hist\<rparr>)"
  using assms by (simp add: printLog_def logLoop_chain)

lemma commitA_hash: "fst commitA = Ok hashA" by code_simp
lemma commitB_hash: "fst commitB = Ok hashB" by code_simp

theorem log_walks_history_witness:
  "fst commitA = Ok hashA \<and> fst commitB = Ok hashB \<and>
   printLog testLib (snd commitB) =
     Some (Ok (), (snd commitB)\<lparr>stdout := stdout (snd commitB) @
        [LogEntry hashB \<lparr>TreeHash = ''2222'', ParentCommit = hashA, Message = ''second'', Timestamp = 0\<rparr>,
         LogEntry hashA \<lparr>TreeHash = ''1111'', ParentCommit = [], Message = ''first'', Timestamp = 0\<rparr>]\<rparr>)"
proof -
  have c: "isChain testLib (snd commitB)
     [(hashB, \<lparr>TreeHash = ''2222'', ParentCommit = hashA, Message = ''second'', Timestamp = 0\<rparr>),
      (hashA, \<lparr>TreeHash = ''1111'', ParentCommit = [], Message = ''first'', Timestamp = 0\<rparr>)]"
    by code_simp
  have h: "getCurrentHead (snd commitB) = Ok hashB" by code_simp
  from log_walks_history [OF c] h commitA_hash commitB_hash show ?thesis by simp
qed

subsection \<open>HEAD and the branch files\<close>







subsection \<open>Creating a branch\<close>








subsection \<open>Switching to a branch\<close>

lemma switchHead_cases:
  "(\<exists>r1. osCreate (BASEDIR @ ''/HEAD'') (root w) = Some r1 \<and>
      switchHead name w =
        (Ok (), w\<lparr>root := writeFile (BASEDIR @ ''/HEAD'') (''refs/heads/'' @ name) r1\<rparr>)) \<or>
   switchHead name w = (Error (PathError (BASEDIR @ ''/HEAD'')), w)"
  by (cases "osCreate (BASEDIR @ ''/HEAD'') (root w)") (simp_all add: switchHead_def)

lemma switchHead_Ok_head:
  assumes "switchHead name w = (Ok (), w')"
  shows "osReadFile (BASEDIR @ ''/HEAD'') (root w') = Some (''refs/heads/'' @ name)"
proof -
  from assms switchHead_cases[of w name] obtain r1 where
    cr: "osCreate (BASEDIR @ ''/HEAD'') (root w) = Some r1"
    and w': "w' = w\<lparr>root := writeFile (BASEDIR @ ''/HEAD'') (''refs/heads/'' @ name) r1\<rparr>"
    by auto
  from cr have p: "osPath (root w) (BASEDIR @ ''/HEAD'') = Some [''.gat'', ''HEAD'']"
    by (auto simp: osCreate_def osPath_HEAD split: option.splits if_splits)
  note c = osCreate_Some[OF cr p]
  have p1: "osPath r1 (BASEDIR @ ''/HEAD'') = Some [''.gat'', ''HEAD'']" using c(6) p by simp
  note wf = writeFile_File[OF p1 c(4) c(5), of "''refs/heads/'' @ name"]
  show ?thesis unfolding w' osReadFile_iff using wf(2) wf(4) p1 by simp
qed

lemma getCurrentBranch_head:
  "osReadFile (BASEDIR @ ''/HEAD'') (root w) = Some (''refs/heads/'' @ cur) \<Longrightarrow>
   getCurrentBranch w = Ok cur"
  by (simp add: getCurrentBranch_def Join_def Clean_def rooted_def Let_def)

lemma restoreHead_result:
  assumes "restoreHead cur context w = (Error e', w')"
  shows "osReadFile (BASEDIR @ ''/HEAD'') (root w') = Some (''refs/heads/'' @ cur) \<or>
         e' = PathError (BASEDIR @ ''/HEAD'')"
proof -
  obtain r w1 where sh: "switchHead cur w = (r, w1)" by (cases "switchHead cur w")
  from switchHead_cases[of w cur] sh have "r = Ok () \<or> r = Error (PathError (BASEDIR @ ''/HEAD''))"
    by auto
  then show ?thesis
  proof
    assume "r = Ok ()"
    then show ?thesis using assms sh switchHead_Ok_head[of cur w w1]
      by (simp add: restoreHead_def andThen_def)
  next
    assume "r = Error (PathError (BASEDIR @ ''/HEAD''))"
    then show ?thesis using assms sh by (simp add: restoreHead_def andThen_def)
  qed
qed

text \<open>
  The two failures that \<^verbatim>\<open>checkoutBranch\<close> looks at are followed by the rollback: when it
  returns an error, \<^verbatim>\<open>HEAD\<close> reads as before, unless the error is that of writing \<^verbatim>\<open>HEAD\<close>
  itself.
\<close>

lemma checkout_error_restores:
  assumes "checkoutBranch k L branchName w = Some (Error e, w')"
    and "osReadFile (BASEDIR @ ''/HEAD'') (root w) = Some (''refs/heads/'' @ cur)"
  shows "osReadFile (BASEDIR @ ''/HEAD'') (root w') = Some (''refs/heads/'' @ cur) \<or>
         e = PathError (BASEDIR @ ''/HEAD'')"
proof -
  note cb = getCurrentBranch_head[OF assms(2)]
  obtain r w1 where sh: "switchHead branchName w = (r, w1)" by (cases "switchHead branchName w")
  from switchHead_cases[of w branchName] sh
  consider "r = Ok ()" | "r = Error (PathError (BASEDIR @ ''/HEAD''))" "w1 = w" by auto
  then show ?thesis
  proof cases
    case 1
    show ?thesis
    proof (cases "getCurrentHead w1")
      case (Ok headCommit)
      then obtain r2 w2 where sc: "switchToCommit k L headCommit w1 = Some (r2, w2)"
        using assms(1) cb sh 1 by (cases "switchToCommit k L headCommit w1") (auto simp: checkoutBranch_def)
      then obtain e2 where "r2 = Error e2"
        "restoreHead cur (''failed to switch to commit '' @ headCommit) w2 = (Error e, w')"
        using assms(1) cb sh 1 Ok by (cases r2) (auto simp: checkoutBranch_def)
      then show ?thesis using restoreHead_result by blast
    next
      case (Error e1)
      then have "restoreHead cur ''failed to get current head, error'' w1 = (Error e, w')"
        using assms(1) cb sh 1 by (simp add: checkoutBranch_def)
      then show ?thesis using restoreHead_result by blast
    next
      case Panic
      then show ?thesis using assms(1) cb sh 1 by (simp add: checkoutBranch_def)
    next
      case Fatal
      then show ?thesis using assms(1) cb sh 1 by (simp add: checkoutBranch_def)
    qed
  next
    case 2
    then show ?thesis using assms cb sh by (simp add: checkoutBranch_def)
  qed
qed

lemma onFeature_branch: "getCurrentBranch onFeature = Ok ''feature''"
  by code_simp

lemma onFeature_switch: "switchHead ''main'' onFeature = (Ok (), leftOnMain)"
  by code_simp

lemma leftOnMain_head: "getCurrentHead leftOnMain = Ok []"
  by code_simp

text \<open>
  Claim C4 does not hold of the code. After \<^verbatim>\<open>branch feature\<close> in a fresh repository,
  \<^verbatim>\<open>checkout main\<close> moves \<^verbatim>\<open>HEAD\<close> to \<^verbatim>\<open>main\<close>, reads the empty hash of that branch and
  panics in \<^verbatim>\<open>readCommit\<close>: the commit cannot be resolved, and \<^verbatim>\<open>HEAD\<close> is left on \<^verbatim>\<open>main\<close>.
\<close>

theorem checkout_panic_leaves_head:
  "osReadFile (BASEDIR @ ''/HEAD'') (root onFeature) = Some ''refs/heads/feature'' \<and>
   (\<forall>k L. checkoutBranch k L ''main'' onFeature = Some (Panic, leftOnMain)) \<and>
   osReadFile (BASEDIR @ ''/HEAD'') (root leftOnMain) = Some ''refs/heads/main''"
proof (intro conjI allI)
  show "osReadFile (BASEDIR @ ''/HEAD'') (root onFeature) = Some ''refs/heads/feature''"
    by code_simp
  show "osReadFile (BASEDIR @ ''/HEAD'') (root leftOnMain) = Some ''refs/heads/main''"
    by code_simp
  fix k L
  have "switchToCommit k L [] leftOnMain = Some (Panic, leftOnMain)"
    by (simp add: switchToCommit_def readCommit_short)
  then show "checkoutBranch k L ''main'' onFeature = Some (Panic, leftOnMain)"
    by (simp add: checkoutBranch_def onFeature_branch onFeature_switch leftOnMain_head)
qed

end
